theory Spec2Isabelle
  imports Main
begin

section \<open>Strings\<close>

text \<open>
  A JavaScript string is modelled as a \<^typ>\<open>string\<close>, one \<^typ>\<open>char\<close> per code unit;
  the model covers the code units below 256.  The built-in string methods the module
  calls are written out over that alphabet.
\<close>

definition isWhiteSpace :: "char \<Rightarrow> bool" where
  "isWhiteSpace c = (c \<in> {CHR 0x09, CHR 0x0A, CHR 0x0B, CHR 0x0C, CHR 0x0D, CHR 0x20, CHR 0xA0})"

definition trim :: "string \<Rightarrow> string" where
  "trim s = rev (dropWhile isWhiteSpace (rev (dropWhile isWhiteSpace s)))"

definition lowerChar :: "char \<Rightarrow> char" where
  "lowerChar c =
     (let n = (of_char c :: nat)
      in if (65 \<le> n \<and> n \<le> 90) \<or> (192 \<le> n \<and> n \<le> 222 \<and> n \<noteq> 215)
         then char_of (n + 32) else c)"

definition toLowerCase :: "string \<Rightarrow> string" where
  "toLowerCase s = map lowerChar s"

definition startsWith :: "string \<Rightarrow> string \<Rightarrow> bool" where
  "startsWith s p = (take (length p) s = p)"

text \<open>\<open>indexOf\<close> returns the first position of the character, or \<open>-1\<close>.\<close>

fun indexFrom :: "string \<Rightarrow> char \<Rightarrow> int \<Rightarrow> int" where
  "indexFrom [] c k = -1"
| "indexFrom (x # xs) c k = (if x = c then k else indexFrom xs c (k + 1))"

definition indexOf :: "string \<Rightarrow> char \<Rightarrow> int" where
  "indexOf s c = indexFrom s c 0"

text \<open>\<open>args[i]\<close>: reading past the end of a JavaScript array gives \<open>undefined\<close>.\<close>

definition argAt :: "string list \<Rightarrow> nat \<Rightarrow> string option" where
  "argAt args i = (if i < length args then Some (args ! i) else None)"

section \<open>Literal, glob and path classifier\<close>

definition isAsciiLetter :: "char \<Rightarrow> bool" where
  "isAsciiLetter c =
     (let n = (of_char c :: nat) in (65 \<le> n \<and> n \<le> 90) \<or> (97 \<le> n \<and> n \<le> 122))"

text \<open>The regular expression \<^verbatim>\<open>/^[A-Za-z]:[\\/]/\<close>.\<close>

fun drivePrefix :: "string \<Rightarrow> bool" where
  "drivePrefix (a # b # c # rest) =
     (isAsciiLetter a \<and> b = CHR '':'' \<and> (c = CHR 0x5C \<or> c = CHR ''/''))"
| "drivePrefix s = False"

definition isPathLikeToken :: "string \<Rightarrow> bool" where
  "isPathLikeToken v =
     (let trimmed = trim v
      in if trimmed = [] then False
         else if trimmed = ''-'' then False
         else if startsWith trimmed ''./'' \<or> startsWith trimmed ''../'' \<or> startsWith trimmed ''~''
              then True
         else if startsWith trimmed ''/'' then True
         else drivePrefix trimmed)"

definition globChars :: "char set" where
  "globChars = {CHR ''*'', CHR ''?'', CHR ''['', CHR '']''}"

definition hasGlobToken :: "string \<Rightarrow> bool" where
  "hasGlobToken v = (\<exists>c \<in> set v. c \<in> globChars)"

definition isSafeLiteralToken :: "string \<Rightarrow> bool" where
  "isSafeLiteralToken v =
     (if v = [] \<or> v = ''-'' then True
      else \<not> hasGlobToken v \<and> \<not> isPathLikeToken v)"

section \<open>Safe-bin profiles\<close>

record SafeBinProfile =
  minPositional :: "nat option"
  maxPositional :: "nat option"
  valueFlags :: "string set option"
  blockedFlags :: "string set option"

definition NO_FLAGS :: "string set" where
  "NO_FLAGS = {}"

definition SAFE_BIN_GENERIC_PROFILE :: SafeBinProfile where
  "SAFE_BIN_GENERIC_PROFILE =
     \<lparr>minPositional = None, maxPositional = None, valueFlags = None, blockedFlags = None\<rparr>"

definition jqProfile :: SafeBinProfile where
  "jqProfile =
     \<lparr>minPositional = None, maxPositional = Some 1,
      valueFlags = Some (set [''--arg'', ''--argjson'', ''--argstr'', ''--argfile'', ''--rawfile'',
        ''--slurpfile'', ''--from-file'', ''--library-path'', ''-L'', ''-f'']),
      blockedFlags = Some (set [''--argfile'', ''--rawfile'', ''--slurpfile'', ''--from-file'',
        ''--library-path'', ''-L'', ''-f''])\<rparr>"

definition grepProfile :: SafeBinProfile where
  "grepProfile =
     \<lparr>minPositional = None, maxPositional = Some 1,
      valueFlags = Some (set [''--regexp'', ''--file'', ''--max-count'', ''--after-context'',
        ''--before-context'', ''--context'', ''--devices'', ''--directories'', ''--binary-files'',
        ''--exclude'', ''--exclude-from'', ''--include'', ''--label'',
        ''-e'', ''-f'', ''-m'', ''-A'', ''-B'', ''-C'', ''-D'', ''-d'']),
      blockedFlags = Some (set [''--file'', ''--exclude-from'', ''--dereference-recursive'',
        ''--directories'', ''--recursive'', ''-f'', ''-d'', ''-r'', ''-R''])\<rparr>"

definition cutProfile :: SafeBinProfile where
  "cutProfile =
     \<lparr>minPositional = None, maxPositional = Some 0,
      valueFlags = Some (set [''--bytes'', ''--characters'', ''--fields'', ''--delimiter'',
        ''--output-delimiter'', ''-b'', ''-c'', ''-f'', ''-d'']),
      blockedFlags = None\<rparr>"

definition sortProfile :: SafeBinProfile where
  "sortProfile =
     \<lparr>minPositional = None, maxPositional = Some 0,
      valueFlags = Some (set [''--key'', ''--field-separator'', ''--buffer-size'',
        ''--temporary-directory'', ''--compress-program'', ''--parallel'', ''--batch-size'',
        ''--random-source'', ''--files0-from'', ''--output'',
        ''-k'', ''-t'', ''-S'', ''-T'', ''-o'']),
      blockedFlags = Some (set [''--files0-from'', ''--output'', ''-o''])\<rparr>"

definition uniqProfile :: SafeBinProfile where
  "uniqProfile =
     \<lparr>minPositional = None, maxPositional = Some 0,
      valueFlags = Some (set [''--skip-fields'', ''--skip-chars'', ''--check-chars'', ''--group'',
        ''-f'', ''-s'', ''-w'']),
      blockedFlags = None\<rparr>"

definition headProfile :: SafeBinProfile where
  "headProfile =
     \<lparr>minPositional = None, maxPositional = Some 0,
      valueFlags = Some (set [''--lines'', ''--bytes'', ''-n'', ''-c'']),
      blockedFlags = None\<rparr>"

definition tailProfile :: SafeBinProfile where
  "tailProfile =
     \<lparr>minPositional = None, maxPositional = Some 0,
      valueFlags = Some (set [''--lines'', ''--bytes'', ''--sleep-interval'',
        ''--max-unchanged-stats'', ''--pid'', ''-n'', ''-c'']),
      blockedFlags = None\<rparr>"

definition trProfile :: SafeBinProfile where
  "trProfile =
     \<lparr>minPositional = Some 1, maxPositional = Some 2, valueFlags = None, blockedFlags = None\<rparr>"

definition wcProfile :: SafeBinProfile where
  "wcProfile =
     \<lparr>minPositional = None, maxPositional = Some 0,
      valueFlags = Some (set [''--files0-from'']),
      blockedFlags = Some (set [''--files0-from''])\<rparr>"

definition SAFE_BIN_PROFILES :: "string \<rightharpoonup> SafeBinProfile" where
  "SAFE_BIN_PROFILES =
     [''jq'' \<mapsto> jqProfile, ''grep'' \<mapsto> grepProfile, ''cut'' \<mapsto> cutProfile,
      ''sort'' \<mapsto> sortProfile, ''uniq'' \<mapsto> uniqProfile, ''head'' \<mapsto> headProfile,
      ''tail'' \<mapsto> tailProfile, ''tr'' \<mapsto> trProfile, ''wc'' \<mapsto> wcProfile]"

section \<open>Argv validator\<close>

text \<open>
  The inner loop after \<open>--\<close>: every remaining token other than the empty string and
  \<open>-\<close> must be a safe literal and is pushed on \<open>positional\<close>; \<open>None\<close> is the
  \<open>return false\<close>.
\<close>

fun scanRest :: "string list \<Rightarrow> string list \<Rightarrow> string list option" where
  "scanRest [] positional = Some positional"
| "scanRest (rest # others) positional =
     (if rest = [] \<or> rest = ''-'' then scanRest others positional
      else if \<not> isSafeLiteralToken rest then None
      else scanRest others (positional @ [rest]))"

text \<open>
  The inner loop over a short-flag cluster, from \<open>j = 1\<close>: the argument is the part of
  the token from position \<open>j\<close> on, so that its tail is \<open>token.slice(j + 1)\<close>.
\<close>

datatype cluster_result = ClusterReject | ClusterInlineValue | ClusterNextValue | ClusterNoValue

fun scanCluster :: "string set \<Rightarrow> string set \<Rightarrow> string \<Rightarrow> cluster_result" where
  "scanCluster vflags bflags [] = ClusterNoValue"
| "scanCluster vflags bflags (c # inlineValue) =
     (let flag = [CHR ''-'', c]
      in if flag \<in> bflags then ClusterReject
         else if flag \<notin> vflags then scanCluster vflags bflags inlineValue
         else if inlineValue \<noteq> []
              then (if \<not> isSafeLiteralToken inlineValue then ClusterReject else ClusterInlineValue)
         else ClusterNextValue)"

text \<open>
  One pass through the body of the outer loop at index \<open>i < args.length\<close>:
  \<open>Reject\<close> is \<open>return false\<close>, \<open>Break\<close> leaves the loop, \<open>Continue i' p\<close> goes on to the
  loop's increment with the index \<open>i'\<close> the body left behind.
\<close>

datatype scan_step = Reject | Continue nat "string list" | Break "string list"

definition consumeNext :: "string list \<Rightarrow> nat \<Rightarrow> string list \<Rightarrow> scan_step" where
  "consumeNext args i positional =
     (case argAt args (i + 1) of
        None \<Rightarrow> Reject
      | Some v \<Rightarrow> if v = [] \<or> \<not> isSafeLiteralToken v then Reject else Continue (i + 1) positional)"

definition scanStep :: "string set \<Rightarrow> string set \<Rightarrow> string list \<Rightarrow> nat \<Rightarrow> string list \<Rightarrow> scan_step" where
  "scanStep vflags bflags args i positional =
     (let token = args ! i
      in if token = [] then Continue i positional
         else if token = ''--'' then
           (case scanRest (drop (i + 1) args) positional of
              None \<Rightarrow> Reject
            | Some p \<Rightarrow> Break p)
         else if token = ''-'' then Continue i positional
         else if \<not> startsWith token ''-'' then
           (if \<not> isSafeLiteralToken token then Reject else Continue i (positional @ [token]))
         else if startsWith token ''--'' then
           (let eqIndex = indexOf token (CHR ''='');
                flag = (if eqIndex > 0 then take (nat eqIndex) token else token)
            in if flag \<in> bflags then Reject
               else if eqIndex > 0 then
                 (if \<not> isSafeLiteralToken (drop (nat (eqIndex + 1)) token) then Reject
                  else Continue i positional)
               else if flag \<notin> vflags then Continue i positional
               else consumeNext args i positional)
         else
           (case scanCluster vflags bflags (drop 1 token) of
              ClusterReject \<Rightarrow> Reject
            | ClusterInlineValue \<Rightarrow> Continue i positional
            | ClusterNextValue \<Rightarrow> consumeNext args i positional
            | ClusterNoValue \<Rightarrow> if hasGlobToken token then Reject else Continue i positional))"

function scanLoop :: "string set \<Rightarrow> string set \<Rightarrow> string list \<Rightarrow> nat \<Rightarrow> string list \<Rightarrow> string list option" where
  "scanLoop vflags bflags args i positional =
     (if i < length args then
        (case scanStep vflags bflags args i positional of
           Reject \<Rightarrow> None
         | Break p \<Rightarrow> Some p
         | Continue i' p \<Rightarrow> scanLoop vflags bflags args (i' + 1) p)
      else Some positional)"
  by pat_completeness auto
termination
  by (relation "measure (\<lambda>(vf, bf, args, i, p). length args - i)")
     (auto simp: scanStep_def consumeNext_def Let_def
           split: option.splits if_splits cluster_result.splits)

declare scanLoop.simps [simp del]

text \<open>\<open>profile.valueFlags ?? NO_FLAGS\<close> and \<open>profile.blockedFlags ?? NO_FLAGS\<close>.\<close>

definition orNoFlags :: "string set option \<Rightarrow> string set" where
  "orNoFlags flags = (case flags of Some s \<Rightarrow> s | None \<Rightarrow> NO_FLAGS)"

text \<open>The whole scan of \<open>validateSafeBinArgv\<close>: \<open>Some positional\<close> when no token was rejected.\<close>

definition scanArgs :: "SafeBinProfile \<Rightarrow> string list \<Rightarrow> string list option" where
  "scanArgs profile args =
     scanLoop (orNoFlags (valueFlags profile)) (orNoFlags (blockedFlags profile)) args 0 []"

definition validateSafeBinArgv :: "string list \<Rightarrow> SafeBinProfile \<Rightarrow> bool" where
  "validateSafeBinArgv args profile =
     (case scanArgs profile args of
        None \<Rightarrow> False
      | Some positional \<Rightarrow>
          (let minPos = (case minPositional profile of Some n \<Rightarrow> n | None \<Rightarrow> 0)
           in if length positional < minPos then False
              else if (case maxPositional profile of
                         Some m \<Rightarrow> length positional > m
                       | None \<Rightarrow> False) then False
              else True))"

text \<open>
  The roles of the tokens of an argv, in the words of the specification of the scan,
  not of the code: a token is a positional, a flag, or the value of a flag.
  \<^item> \<open>--\<close> ends flag parsing; every later token other than \<open>-\<close> is a positional.
  \<^item> A bare \<open>-\<close> is skipped (and so is an empty token).
  \<^item> A token not starting with \<open>-\<close> is a positional.
  \<^item> A long flag \<open>--name\<close> or \<open>--name=value\<close> is the flag \<open>--name\<close>; an inline value is
    its value; without an inline value, a value-flag takes the next token as its value.
  \<^item> In a short-flag cluster \<open>-abc\<close> each character is the flag \<open>-x\<close>, up to and
    including the first one in \<open>valueFlags\<close>: its value is the rest of the cluster if
    that is not empty, and the next token otherwise.
  Blocked flags play no part in the roles.
\<close>

datatype token_role = Positional string | Flag string | FlagValue string

definition clusterFlagChars :: "string set \<Rightarrow> string \<Rightarrow> string" where
  "clusterFlagChars vflags cs = takeWhile (\<lambda>c. [CHR ''-'', c] \<notin> vflags) cs"

definition clusterValuePart :: "string set \<Rightarrow> string \<Rightarrow> string" where
  "clusterValuePart vflags cs = dropWhile (\<lambda>c. [CHR ''-'', c] \<notin> vflags) cs"

text \<open>The roles a token other than \<open>--\<close> has by itself.\<close>

definition tokenRoles :: "string set \<Rightarrow> string \<Rightarrow> token_role list" where
  "tokenRoles vflags t =
     (if t = [] \<or> t = ''-'' then []
      else if \<not> startsWith t ''-'' then [Positional t]
      else if startsWith t ''--'' then
        (if CHR ''='' \<in> set t
         then [Flag (takeWhile (\<lambda>c. c \<noteq> CHR ''='') t),
               FlagValue (drop 1 (dropWhile (\<lambda>c. c \<noteq> CHR ''='') t))]
         else [Flag t])
      else
        map (\<lambda>c. Flag [CHR ''-'', c]) (clusterFlagChars vflags (drop 1 t)) @
        (case clusterValuePart vflags (drop 1 t) of
           [] \<Rightarrow> []
         | c # inline \<Rightarrow> Flag [CHR ''-'', c] # (if inline = [] then [] else [FlagValue inline])))"

text \<open>Whether a token other than \<open>--\<close> takes the next token as the value of a flag.\<close>

definition takesNextToken :: "string set \<Rightarrow> string \<Rightarrow> bool" where
  "takesNextToken vflags t =
     (if \<not> startsWith t ''-'' \<or> t = ''-'' then False
      else if startsWith t ''--'' then CHR ''='' \<notin> set t \<and> t \<in> vflags
      else (case clusterValuePart vflags (drop 1 t) of
              [] \<Rightarrow> False
            | c # inline \<Rightarrow> inline = []))"

fun rolesSpec :: "string set \<Rightarrow> string list \<Rightarrow> token_role list" where
  "rolesSpec vflags [] = []"
| "rolesSpec vflags (t # rest) =
     (if t = ''--'' then map Positional (filter (\<lambda>r. r \<noteq> [] \<and> r \<noteq> ''-'') rest)
      else if takesNextToken vflags t then
        tokenRoles vflags t @
        (case rest of [] \<Rightarrow> [] | v # rest' \<Rightarrow> FlagValue v # rolesSpec vflags rest')
      else tokenRoles vflags t @ rolesSpec vflags rest)"

definition argvRoles :: "SafeBinProfile \<Rightarrow> string list \<Rightarrow> token_role list" where
  "argvRoles profile args = rolesSpec (orNoFlags (valueFlags profile)) args"

text \<open>
  What the specification asks of each role: a positional and the value of a flag must be
  safe literals, a flag must not be blocked.
\<close>

fun violates :: "string set \<Rightarrow> token_role \<Rightarrow> bool" where
  "violates bflags (Positional t) = (\<not> isSafeLiteralToken t)"
| "violates bflags (FlagValue t) = (\<not> isSafeLiteralToken t)"
| "violates bflags (Flag f) = (f \<in> bflags)"

definition isValueFlag :: "SafeBinProfile \<Rightarrow> string \<Rightarrow> bool" where
  "isValueFlag profile flag = (flag \<in> orNoFlags (valueFlags profile))"

definition isBlockedFlag :: "SafeBinProfile \<Rightarrow> string \<Rightarrow> bool" where
  "isBlockedFlag profile flag = (flag \<in> orNoFlags (blockedFlags profile))"

section \<open>Safe-bin set normalizer\<close>

text \<open>
  A JavaScript value that may be \<open>undefined\<close>, \<open>null\<close> or a proper value.
\<close>

datatype 'a optional = Undefined | Null | Defined 'a

definition normalizeSafeBins :: "string list optional \<Rightarrow> string set" where
  "normalizeSafeBins entries =
     (case entries of
        Defined es \<Rightarrow> set (filter (\<lambda>entry. length entry > 0) (map (\<lambda>entry. toLowerCase (trim entry)) es))
      | _ \<Rightarrow> {})"

text \<open>
  \<open>DEFAULT_SAFE_BINS\<close> is imported from the analysis module; it is a parameter here.
\<close>

definition resolveSafeBins :: "string list \<Rightarrow> string list optional \<Rightarrow> string set" where
  "resolveSafeBins DEFAULT_SAFE_BINS entries =
     (if entries = Undefined then normalizeSafeBins (Defined DEFAULT_SAFE_BINS)
      else normalizeSafeBins (case entries of Null \<Rightarrow> Defined [] | _ \<Rightarrow> entries))"

section \<open>External collaborators\<close>

record CommandResolution =
  executableName :: string
  resolvedPath :: "string option"

record ExecCommandSegment =
  argv :: "string list"
  resolution :: "CommandResolution option"

record ExecCommandAnalysis =
  ok :: bool
  segments :: "ExecCommandSegment list"
  chains :: "ExecCommandSegment list list option"

text \<open>
  The functions and constants the module imports, and the host's \<open>process.platform\<close>
  it reads, are parameters of the model.  The type \<open>'e\<close> is \<open>ExecAllowlistEntry\<close>.
\<close>

record 'e collaborators =
  isWindowsPlatform :: "string optional \<Rightarrow> bool"
  matchAllowlist :: "'e list \<Rightarrow> CommandResolution option \<Rightarrow> 'e option"
  resolveAllowlistCandidatePath :: "CommandResolution option \<Rightarrow> string option \<Rightarrow> string option"
  isTrustedSafeBinPath :: "string \<Rightarrow> string set option \<Rightarrow> bool"
  analyzeShellCommand ::
    "string \<Rightarrow> string option \<Rightarrow> (string \<rightharpoonup> string) option \<Rightarrow> string optional \<Rightarrow> ExecCommandAnalysis"
  splitCommandChain :: "string \<Rightarrow> string list option"
  pathParseName :: "string \<Rightarrow> string"
  processPlatform :: string

section \<open>Safe-bin usage gate\<close>

definition isSafeBinUsage ::
  "('e, 'x) collaborators_scheme \<Rightarrow> string list \<Rightarrow> CommandResolution option \<Rightarrow> string set
     \<Rightarrow> string set option \<Rightarrow> bool" where
  "isSafeBinUsage ext argv' resolution' safeBins' trustedSafeBinDirs' =
     (if isWindowsPlatform ext (Defined (processPlatform ext)) then False
      else if safeBins' = {} then False
      else
        (case resolution' of
           None \<Rightarrow> False
         | Some res \<Rightarrow>
             (let execName = toLowerCase (executableName res)
              in if execName = [] then False
                 else
                   (let matchesSafeBin =
                          (execName \<in> safeBins' \<or>
                           (processPlatform ext = ''win32'' \<and> pathParseName ext execName \<in> safeBins'))
                    in if \<not> matchesSafeBin then False
                       else
                         (case resolvedPath res of
                            None \<Rightarrow> False
                          | Some rp \<Rightarrow>
                              if rp = [] then False
                              else if \<not> isTrustedSafeBinPath ext rp trustedSafeBinDirs' then False
                              else
                                (let profile = (case SAFE_BIN_PROFILES execName of
                                                  Some p \<Rightarrow> p
                                                | None \<Rightarrow> SAFE_BIN_GENERIC_PROFILE)
                                 in validateSafeBinArgv (drop 1 argv') profile))))))"

section \<open>Segment and chain evaluator\<close>

datatype satisfied_by = Allowlist | SafeBins | Skills

text \<open>\<open>ExecSegmentSatisfiedBy\<close>: \<open>null\<close> is \<open>None\<close>.\<close>

type_synonym ExecSegmentSatisfiedBy = "satisfied_by option"

record 'e ExecAllowlistEvaluation =
  allowlistSatisfied :: bool
  allowlistMatches :: "'e list"
  segmentSatisfiedBy :: "ExecSegmentSatisfiedBy list"

record 'e eval_params =
  allowlist :: "'e list"
  safeBins :: "string set"
  cwd :: "string option"
  trustedSafeBinDirs :: "string set option"
  skillBins :: "string set option"
  autoAllowSkills :: "bool option"

record 'e segments_result =
  satisfied :: bool
  matches :: "'e list"
  satisfiedBy :: "ExecSegmentSatisfiedBy list"

text \<open>
  The callback of \<open>segments.every\<close>: the allowlist match of the segment, if any, and
  what the segment is satisfied by.
\<close>

definition evaluateSegment ::
  "('e, 'x) collaborators_scheme \<Rightarrow> ('e, 'y) eval_params_scheme \<Rightarrow> ExecCommandSegment
     \<Rightarrow> 'e option \<times> ExecSegmentSatisfiedBy" where
  "evaluateSegment ext params segment =
     (let allowSkills = (autoAllowSkills params = Some True \<and>
                         (case skillBins params of None \<Rightarrow> False | Some sb \<Rightarrow> sb \<noteq> {}));
          candidatePath = resolveAllowlistCandidatePath ext (resolution segment) (cwd params);
          candidateResolution =
            (case (candidatePath, resolution segment) of
               (Some cp, Some res) \<Rightarrow> if cp \<noteq> [] then Some (res\<lparr>resolvedPath := Some cp\<rparr>) else Some res
             | _ \<Rightarrow> resolution segment);
          match = matchAllowlist ext (allowlist params) candidateResolution;
          safe = isSafeBinUsage ext (argv segment) (resolution segment) (safeBins params)
                   (trustedSafeBinDirs params);
          skillAllow =
            (case resolution segment of
               Some res \<Rightarrow>
                 if allowSkills \<and> executableName res \<noteq> []
                 then (case skillBins params of Some sb \<Rightarrow> executableName res \<in> sb | None \<Rightarrow> False)
                 else False
             | None \<Rightarrow> False);
          by = (if match \<noteq> None then Some Allowlist
                else if safe then Some SafeBins
                else if skillAllow then Some Skills
                else None)
      in (match, by))"

text \<open>
  \<open>segments.every\<close> stops at the first segment whose callback returns false; what the
  callback pushed up to and including that segment stays in the two arrays.
\<close>

fun everySegment ::
  "('e, 'x) collaborators_scheme \<Rightarrow> ('e, 'y) eval_params_scheme \<Rightarrow> ExecCommandSegment list
     \<Rightarrow> 'e list \<Rightarrow> ExecSegmentSatisfiedBy list \<Rightarrow> 'e segments_result" where
  "everySegment ext params [] ms sby = \<lparr>satisfied = True, matches = ms, satisfiedBy = sby\<rparr>"
| "everySegment ext params (segment # rest) ms sby =
     (case evaluateSegment ext params segment of
        (match, by) \<Rightarrow>
          (let ms' = (case match of Some m \<Rightarrow> ms @ [m] | None \<Rightarrow> ms);
               sby' = sby @ [by]
           in if by \<noteq> None then everySegment ext params rest ms' sby'
              else \<lparr>satisfied = False, matches = ms', satisfiedBy = sby'\<rparr>))"

definition evaluateSegments ::
  "('e, 'x) collaborators_scheme \<Rightarrow> ExecCommandSegment list \<Rightarrow> ('e, 'y) eval_params_scheme
     \<Rightarrow> 'e segments_result" where
  "evaluateSegments ext segs params = everySegment ext params segs [] []"

text \<open>The loop of \<open>evaluateExecAllowlist\<close> over \<open>analysis.chains\<close>.\<close>

fun evaluateChains ::
  "('e, 'x) collaborators_scheme \<Rightarrow> ('e, 'y) eval_params_scheme \<Rightarrow> ExecCommandSegment list list
     \<Rightarrow> 'e list \<Rightarrow> ExecSegmentSatisfiedBy list \<Rightarrow> 'e ExecAllowlistEvaluation" where
  "evaluateChains ext params [] ms sby =
     \<lparr>allowlistSatisfied = True, allowlistMatches = ms, segmentSatisfiedBy = sby\<rparr>"
| "evaluateChains ext params (chainSegments # rest) ms sby =
     (let result = evaluateSegments ext chainSegments params
      in if \<not> satisfied result
         then \<lparr>allowlistSatisfied = False, allowlistMatches = [], segmentSatisfiedBy = []\<rparr>
         else evaluateChains ext params rest (ms @ matches result) (sby @ satisfiedBy result))"

definition evaluateExecAllowlist ::
  "('e, 'x) collaborators_scheme \<Rightarrow> ExecCommandAnalysis \<Rightarrow> ('e, 'y) eval_params_scheme
     \<Rightarrow> 'e ExecAllowlistEvaluation" where
  "evaluateExecAllowlist ext analysis params =
     (if \<not> ok analysis \<or> length (segments analysis) = 0
      then \<lparr>allowlistSatisfied = False, allowlistMatches = [], segmentSatisfiedBy = []\<rparr>
      else
        (case chains analysis of
           Some cs \<Rightarrow> evaluateChains ext params cs [] []
         | None \<Rightarrow>
             (let result = evaluateSegments ext (segments analysis) params
              in \<lparr>allowlistSatisfied = satisfied result,
                  allowlistMatches = matches result,
                  segmentSatisfiedBy = satisfiedBy result\<rparr>)))"

record 'e ExecAllowlistAnalysis =
  analysisOk :: bool
  allowlistSatisfiedA :: bool
  allowlistMatchesA :: "'e list"
  segmentsA :: "ExecCommandSegment list"
  segmentSatisfiedByA :: "ExecSegmentSatisfiedBy list"

record 'e shell_params = "'e eval_params" +
  command :: string
  env :: "(string \<rightharpoonup> string) option"
  platform :: "string optional"

definition analysisFailure :: "'e ExecAllowlistAnalysis" where
  "analysisFailure =
     \<lparr>analysisOk = False, allowlistSatisfiedA = False, allowlistMatchesA = [],
      segmentsA = [], segmentSatisfiedByA = []\<rparr>"

text \<open>The loop of \<open>evaluateShellAllowlist\<close> over the chain parts.\<close>

fun evaluateParts ::
  "('e, 'x) collaborators_scheme \<Rightarrow> ('e, 'y) shell_params_scheme \<Rightarrow> string list
     \<Rightarrow> 'e list \<Rightarrow> ExecCommandSegment list \<Rightarrow> ExecSegmentSatisfiedBy list
     \<Rightarrow> 'e ExecAllowlistAnalysis" where
  "evaluateParts ext params [] ms segs sby =
     \<lparr>analysisOk = True, allowlistSatisfiedA = True, allowlistMatchesA = ms,
      segmentsA = segs, segmentSatisfiedByA = sby\<rparr>"
| "evaluateParts ext params (part # rest) ms segs sby =
     (let analysis = analyzeShellCommand ext part (cwd params) (env params) (platform params)
      in if \<not> ok analysis then analysisFailure
         else
           (let segs' = segs @ segments analysis;
                evaluation = evaluateExecAllowlist ext analysis params;
                ms' = ms @ allowlistMatches evaluation;
                sby' = sby @ segmentSatisfiedBy evaluation
            in if \<not> allowlistSatisfied evaluation
               then \<lparr>analysisOk = True, allowlistSatisfiedA = False, allowlistMatchesA = ms',
                     segmentsA = segs', segmentSatisfiedByA = sby'\<rparr>
               else evaluateParts ext params rest ms' segs' sby'))"

definition evaluateShellAllowlist ::
  "('e, 'x) collaborators_scheme \<Rightarrow> ('e, 'y) shell_params_scheme \<Rightarrow> 'e ExecAllowlistAnalysis" where
  "evaluateShellAllowlist ext params =
     (let chainParts = (if isWindowsPlatform ext (platform params) then None
                        else splitCommandChain ext (command params))
      in case chainParts of
           None \<Rightarrow>
             (let analysis = analyzeShellCommand ext (command params) (cwd params) (env params)
                               (platform params)
              in if \<not> ok analysis then analysisFailure
                 else
                   (let evaluation = evaluateExecAllowlist ext analysis params
                    in \<lparr>analysisOk = True,
                        allowlistSatisfiedA = allowlistSatisfied evaluation,
                        allowlistMatchesA = allowlistMatches evaluation,
                        segmentsA = segments analysis,
                        segmentSatisfiedByA = segmentSatisfiedBy evaluation\<rparr>))
         | Some parts \<Rightarrow> evaluateParts ext params parts [] [] [])"

section \<open>A concrete configuration\<close>

text \<open>
  One instance of the collaborators, for evaluating the model on concrete inputs: the
  allowlist entries are executable names, a command is a bare executable name found
  under \<open>/usr/bin\<close>, and the host platform is the argument.
\<close>

definition exampleSegment :: "string \<Rightarrow> ExecCommandSegment" where
  "exampleSegment name =
     \<lparr>argv = [name],
      resolution = Some \<lparr>executableName = name, resolvedPath = Some (''/usr/bin/'' @ name)\<rparr>\<rparr>"

definition exampleCollaborators :: "string \<Rightarrow> string collaborators" where
  "exampleCollaborators hostPlatform =
     \<lparr>isWindowsPlatform =
        (\<lambda>p. case p of Defined s \<Rightarrow> startsWith (toLowerCase (trim s)) ''win'' | _ \<Rightarrow> False),
      matchAllowlist =
        (\<lambda>entries res. case res of
                          None \<Rightarrow> None
                        | Some r \<Rightarrow> List.find (\<lambda>e. e = executableName r) entries),
      resolveAllowlistCandidatePath = (\<lambda>res dir. None),
      isTrustedSafeBinPath = (\<lambda>p dirs. startsWith p ''/usr/bin/''),
      analyzeShellCommand =
        (\<lambda>cmd dir vars plat. \<lparr>ok = True, segments = [exampleSegment cmd], chains = None\<rparr>),
      splitCommandChain = (\<lambda>cmd. None),
      pathParseName = (\<lambda>name. name),
      processPlatform = hostPlatform\<rparr>"

definition exampleParams :: "string eval_params" where
  "exampleParams =
     \<lparr>allowlist = [''git''], safeBins = {''head''}, cwd = None, trustedSafeBinDirs = None,
      skillBins = None, autoAllowSkills = None\<rparr>"

definition exampleShellParams :: "string optional \<Rightarrow> string shell_params" where
  "exampleShellParams plat =
     \<lparr>allowlist = [], safeBins = {''head''}, cwd = None, trustedSafeBinDirs = None,
      skillBins = None, autoAllowSkills = None,
      command = ''head'', env = None, platform = plat\<rparr>"

section \<open>Properties of the segment and chain evaluator\<close>

lemma everySegment_satisfied:
  "satisfied (everySegment ext params segs ms sby) =
     (\<forall>segment \<in> set segs. snd (evaluateSegment ext params segment) \<noteq> None)"
  by (induction segs arbitrary: ms sby) (auto simp: Let_def split: prod.splits)

lemma evaluateSegments_satisfied:
  "satisfied (evaluateSegments ext segs params) =
     (\<forall>segment \<in> set segs. snd (evaluateSegment ext params segment) \<noteq> None)"
  by (simp add: evaluateSegments_def everySegment_satisfied)

lemma everySegment_matches:
  "matches (everySegment ext params segs ms sby) =
     ms @ List.map_filter (\<lambda>segment. fst (evaluateSegment ext params segment))
            (takeWhile (\<lambda>segment. snd (evaluateSegment ext params segment) \<noteq> None) segs @
             take 1 (dropWhile (\<lambda>segment. snd (evaluateSegment ext params segment) \<noteq> None) segs))"
proof (induction segs arbitrary: ms sby)
  case Nil
  show ?case by simp
next
  case (Cons segment rest)
  obtain m b where mb: "evaluateSegment ext params segment = (m, b)"
    by (cases "evaluateSegment ext params segment")
  show ?case
  proof (cases b)
    case None
    with mb show ?thesis
      by (cases m) (simp_all add: Let_def)
  next
    case (Some k)
    with mb Cons.IH show ?thesis
      by (cases m) (simp_all add: Let_def)
  qed
qed

lemma evaluateChains_deny:
  "\<exists>part \<in> set cs. \<not> satisfied (evaluateSegments ext part params) \<Longrightarrow>
   evaluateChains ext params cs ms sby =
     \<lparr>allowlistSatisfied = False, allowlistMatches = [], segmentSatisfiedBy = []\<rparr>"
  by (induction cs arbitrary: ms sby) (auto simp: Let_def)

lemma evaluateChains_allow:
  "\<forall>part \<in> set cs. satisfied (evaluateSegments ext part params) \<Longrightarrow>
   evaluateChains ext params cs ms sby =
     \<lparr>allowlistSatisfied = True,
      allowlistMatches = ms @ concat (map (\<lambda>part. matches (evaluateSegments ext part params)) cs),
      segmentSatisfiedBy =
        sby @ concat (map (\<lambda>part. satisfiedBy (evaluateSegments ext part params)) cs)\<rparr>"
  by (induction cs arbitrary: ms sby) (auto simp: Let_def)

text \<open>The example configuration on three executables.\<close>

lemmas example_defs =
  exampleSegment_def exampleCollaborators_def exampleParams_def exampleShellParams_def

lemma example_git:
  "evaluateSegment (exampleCollaborators ''linux'') exampleParams (exampleSegment ''git'') =
     (Some ''git'', Some Allowlist)"
  by (simp add: evaluateSegment_def example_defs)

lemma example_rm:
  "evaluateSegment (exampleCollaborators ''linux'') exampleParams (exampleSegment ''rm'') =
     (None, None)"
  by (simp add: evaluateSegment_def example_defs isSafeBinUsage_def toLowerCase_def lowerChar_def)

text \<open>
  Claim C1.  In a chained analysis (\<open>ok\<close> true, segments not empty, \<open>chains\<close> present), if
  some chain part contains a segment that is satisfied by nothing (neither the
  allowlist, nor the safe-bin gate, nor the skill bins), then \<open>evaluateExecAllowlist\<close>
  returns \<open>allowlistSatisfied: false\<close> with empty \<open>allowlistMatches\<close> and empty
  \<open>segmentSatisfiedBy\<close>: what earlier satisfied parts had accumulated is not returned.
\<close>

theorem chained_unsatisfied_part_discards_all:
  assumes "ok analysis" and "segments analysis \<noteq> []" and "chains analysis = Some cs"
    and "part \<in> set cs" and "segment \<in> set part"
    and "snd (evaluateSegment ext params segment) = None"
  shows "evaluateExecAllowlist ext analysis params =
           \<lparr>allowlistSatisfied = False, allowlistMatches = [], segmentSatisfiedBy = []\<rparr>"
proof -
  from assms(5,6) have "\<not> satisfied (evaluateSegments ext part params)"
    by (auto simp: evaluateSegments_satisfied)
  with assms(4) have "\<exists>part \<in> set cs. \<not> satisfied (evaluateSegments ext part params)"
    by blast
  then have "evaluateChains ext params cs [] [] =
      \<lparr>allowlistSatisfied = False, allowlistMatches = [], segmentSatisfiedBy = []\<rparr>"
    by (rule evaluateChains_deny)
  with assms(1-3) show ?thesis
    by (simp add: evaluateExecAllowlist_def)
qed

theorem chained_unsatisfied_part_discards_all_witness:
  "fst (evaluateSegment (exampleCollaborators ''linux'') exampleParams (exampleSegment ''git''))
     = Some ''git'' \<and>
   evaluateExecAllowlist (exampleCollaborators ''linux'')
     \<lparr>ok = True, segments = [exampleSegment ''git'', exampleSegment ''rm''],
      chains = Some [[exampleSegment ''git''], [exampleSegment ''rm'']]\<rparr> exampleParams =
     \<lparr>allowlistSatisfied = False, allowlistMatches = [], segmentSatisfiedBy = []\<rparr>"
proof -
  let ?a = "\<lparr>ok = True, segments = [exampleSegment ''git'', exampleSegment ''rm''],
             chains = Some [[exampleSegment ''git''], [exampleSegment ''rm'']]\<rparr>"
  have h1: "ok ?a" and h2: "segments ?a \<noteq> []"
    and h3: "chains ?a = Some [[exampleSegment ''git''], [exampleSegment ''rm'']]"
    by simp_all
  have h4: "[exampleSegment ''rm''] \<in> set [[exampleSegment ''git''], [exampleSegment ''rm'']]"
    and h5: "exampleSegment ''rm'' \<in> set [exampleSegment ''rm'']"
    by simp_all
  have h6: "snd (evaluateSegment (exampleCollaborators ''linux'') exampleParams
                  (exampleSegment ''rm'')) = None"
    by (simp add: example_rm)
  show ?thesis
    using chained_unsatisfied_part_discards_all [OF h1 h2 h3 h4 h5 h6]
    by (simp add: example_git)
qed

text \<open>
  Claim C3, as stated, fails.  Without chains the result of \<open>evaluateSegments\<close> on the
  single pipeline is returned as it is: the pipeline \<open>git | rm\<close>, with \<open>git\<close> on the
  allowlist and \<open>rm\<close> satisfied by nothing, is denied and still reports the match of
  \<open>git\<close>.
\<close>

theorem denied_pipeline_reports_earlier_match:
  "evaluateExecAllowlist (exampleCollaborators ''linux'')
     \<lparr>ok = True, segments = [exampleSegment ''git'', exampleSegment ''rm''], chains = None\<rparr>
     exampleParams =
     \<lparr>allowlistSatisfied = False, allowlistMatches = [''git''],
      segmentSatisfiedBy = [Some Allowlist, None]\<rparr>"
  by (simp add: evaluateExecAllowlist_def evaluateSegments_def example_git example_rm Let_def)

text \<open>
  Claim C3, amended.  With chains present, \<open>allowlistMatches\<close> holds the matches of all
  chain parts when the analysis is usable and every part is satisfied, and is empty
  whenever the result is a denial.  Without chains (analysis \<open>ok\<close>, segments not empty)
  the result carries the outcome and the matches of \<open>evaluateSegments\<close> on the single
  pipeline, satisfied or not: the matches of the segments up to and including the first
  unsatisfied one.
\<close>

theorem allowlistMatches_of_evaluateExecAllowlist:
  "(chains analysis = Some cs \<longrightarrow>
      (if ok analysis \<and> segments analysis \<noteq> [] \<and>
          (\<forall>part \<in> set cs. satisfied (evaluateSegments ext part params))
       then allowlistSatisfied (evaluateExecAllowlist ext analysis params) \<and>
            allowlistMatches (evaluateExecAllowlist ext analysis params) =
              concat (map (\<lambda>part. matches (evaluateSegments ext part params)) cs)
       else \<not> allowlistSatisfied (evaluateExecAllowlist ext analysis params) \<and>
            allowlistMatches (evaluateExecAllowlist ext analysis params) = [])) \<and>
   (chains analysis = None \<and> ok analysis \<and> segments analysis \<noteq> [] \<longrightarrow>
      allowlistSatisfied (evaluateExecAllowlist ext analysis params) =
        satisfied (evaluateSegments ext (segments analysis) params) \<and>
      allowlistMatches (evaluateExecAllowlist ext analysis params) =
        matches (evaluateSegments ext (segments analysis) params) \<and>
      matches (evaluateSegments ext (segments analysis) params) =
        List.map_filter (\<lambda>segment. fst (evaluateSegment ext params segment))
          (takeWhile (\<lambda>segment. snd (evaluateSegment ext params segment) \<noteq> None)
             (segments analysis) @
           take 1 (dropWhile (\<lambda>segment. snd (evaluateSegment ext params segment) \<noteq> None)
             (segments analysis))))"
proof (intro conjI impI)
  assume cs: "chains analysis = Some cs"
  show "if ok analysis \<and> segments analysis \<noteq> [] \<and>
          (\<forall>part \<in> set cs. satisfied (evaluateSegments ext part params))
       then allowlistSatisfied (evaluateExecAllowlist ext analysis params) \<and>
            allowlistMatches (evaluateExecAllowlist ext analysis params) =
              concat (map (\<lambda>part. matches (evaluateSegments ext part params)) cs)
       else \<not> allowlistSatisfied (evaluateExecAllowlist ext analysis params) \<and>
            allowlistMatches (evaluateExecAllowlist ext analysis params) = []"
  proof (cases "ok analysis \<and> segments analysis \<noteq> []")
    case False
    then show ?thesis by (auto simp: evaluateExecAllowlist_def)
  next
    case usable: True
    show ?thesis
    proof (cases "\<forall>part \<in> set cs. satisfied (evaluateSegments ext part params)")
      case True
      with usable cs show ?thesis
        by (simp add: evaluateExecAllowlist_def evaluateChains_allow)
    next
      case False
      then have "\<exists>part \<in> set cs. \<not> satisfied (evaluateSegments ext part params)"
        by blast
      from evaluateChains_deny [OF this] usable cs False show ?thesis
        by (simp add: evaluateExecAllowlist_def)
    qed
  qed
next
  assume "chains analysis = None \<and> ok analysis \<and> segments analysis \<noteq> []"
  then show "allowlistSatisfied (evaluateExecAllowlist ext analysis params) =
        satisfied (evaluateSegments ext (segments analysis) params)"
    and "allowlistMatches (evaluateExecAllowlist ext analysis params) =
        matches (evaluateSegments ext (segments analysis) params)"
    by (simp_all add: evaluateExecAllowlist_def Let_def)
next
  show "matches (evaluateSegments ext (segments analysis) params) =
        List.map_filter (\<lambda>segment. fst (evaluateSegment ext params segment))
          (takeWhile (\<lambda>segment. snd (evaluateSegment ext params segment) \<noteq> None)
             (segments analysis) @
           take 1 (dropWhile (\<lambda>segment. snd (evaluateSegment ext params segment) \<noteq> None)
             (segments analysis)))"
    by (simp add: evaluateSegments_def everySegment_matches)
qed

theorem allowlistMatches_of_evaluateExecAllowlist_witness:
  "allowlistMatches (evaluateExecAllowlist (exampleCollaborators ''linux'')
     \<lparr>ok = True, segments = [exampleSegment ''git'', exampleSegment ''rm''],
      chains = Some [[exampleSegment ''git''], [exampleSegment ''rm'']]\<rparr> exampleParams) = [] \<and>
   allowlistMatches (evaluateExecAllowlist (exampleCollaborators ''linux'')
     \<lparr>ok = True, segments = [exampleSegment ''git''],
      chains = Some [[exampleSegment ''git'']]\<rparr> exampleParams) = [''git''] \<and>
   allowlistMatches (evaluateExecAllowlist (exampleCollaborators ''linux'')
     \<lparr>ok = True, segments = [exampleSegment ''git'', exampleSegment ''rm''],
      chains = None\<rparr> exampleParams) = [''git'']"
  using
    allowlistMatches_of_evaluateExecAllowlist
      [of "\<lparr>ok = True, segments = [exampleSegment ''git'', exampleSegment ''rm''],
            chains = Some [[exampleSegment ''git''], [exampleSegment ''rm'']]\<rparr>"
          "[[exampleSegment ''git''], [exampleSegment ''rm'']]"
          "exampleCollaborators ''linux''" exampleParams]
    allowlistMatches_of_evaluateExecAllowlist
      [of "\<lparr>ok = True, segments = [exampleSegment ''git''],
            chains = Some [[exampleSegment ''git'']]\<rparr>"
          "[[exampleSegment ''git'']]"
          "exampleCollaborators ''linux''" exampleParams]
    allowlistMatches_of_evaluateExecAllowlist
      [of "\<lparr>ok = True, segments = [exampleSegment ''git'', exampleSegment ''rm''],
            chains = None\<rparr>"
          "[]" "exampleCollaborators ''linux''" exampleParams]
  by (simp add: evaluateSegments_satisfied evaluateSegments_def example_git example_rm)

text \<open>
  Claim C4.  When \<open>analysis.ok\<close> is false, and when the segment list is empty,
  \<open>evaluateExecAllowlist\<close> denies with empty \<open>allowlistMatches\<close> and empty
  \<open>segmentSatisfiedBy\<close>, whatever the collaborators, the chains and the parameters are:
  no segment is looked at.
\<close>

theorem unusable_analysis_denied:
  "\<not> ok analysis \<or> segments analysis = [] \<Longrightarrow>
   evaluateExecAllowlist ext analysis params =
     \<lparr>allowlistSatisfied = False, allowlistMatches = [], segmentSatisfiedBy = []\<rparr>"
  by (auto simp: evaluateExecAllowlist_def)

theorem unusable_analysis_denied_witness:
  "evaluateExecAllowlist (exampleCollaborators ''linux'')
     \<lparr>ok = False, segments = [exampleSegment ''git''], chains = None\<rparr> exampleParams =
     \<lparr>allowlistSatisfied = False, allowlistMatches = [], segmentSatisfiedBy = []\<rparr> \<and>
   evaluateExecAllowlist (exampleCollaborators ''linux'')
     \<lparr>ok = True, segments = [], chains = Some [[exampleSegment ''git'']]\<rparr> exampleParams =
     \<lparr>allowlistSatisfied = False, allowlistMatches = [], segmentSatisfiedBy = []\<rparr>"
  using
    unusable_analysis_denied
      [of "\<lparr>ok = False, segments = [exampleSegment ''git''], chains = None\<rparr>"
          "exampleCollaborators ''linux''" exampleParams]
    unusable_analysis_denied
      [of "\<lparr>ok = True, segments = [], chains = Some [[exampleSegment ''git'']]\<rparr>"
          "exampleCollaborators ''linux''" exampleParams]
  by simp

text \<open>
  Claim C10.  When \<open>analysis.ok\<close> is true, the segment list is not empty and \<open>chains\<close> is
  present but empty, \<open>evaluateExecAllowlist\<close> returns \<open>allowlistSatisfied: true\<close> with
  empty \<open>allowlistMatches\<close> and empty \<open>segmentSatisfiedBy\<close>, whatever the segments, the
  allowlist and the safe bins are.
\<close>

theorem empty_chains_allowed:
  "ok analysis \<Longrightarrow> segments analysis \<noteq> [] \<Longrightarrow> chains analysis = Some [] \<Longrightarrow>
   evaluateExecAllowlist ext analysis params =
     \<lparr>allowlistSatisfied = True, allowlistMatches = [], segmentSatisfiedBy = []\<rparr>"
  by (simp add: evaluateExecAllowlist_def)

theorem empty_chains_allowed_witness:
  "snd (evaluateSegment (exampleCollaborators ''linux'') exampleParams (exampleSegment ''rm''))
     = None \<and>
   evaluateExecAllowlist (exampleCollaborators ''linux'')
     \<lparr>ok = True, segments = [exampleSegment ''rm''], chains = Some []\<rparr> exampleParams =
     \<lparr>allowlistSatisfied = True, allowlistMatches = [], segmentSatisfiedBy = []\<rparr>"
proof -
  let ?a = "\<lparr>ok = True, segments = [exampleSegment ''rm''], chains = Some []\<rparr>"
  have h1: "ok ?a" and h2: "segments ?a \<noteq> []" and h3: "chains ?a = Some []"
    by simp_all
  show ?thesis
    using empty_chains_allowed [OF h1 h2 h3] by (simp add: example_rm)
qed

section \<open>The host platform and the safe-bin set\<close>

lemma toLowerCase_head: "toLowerCase ''head'' = ''head''"
  by (simp add: toLowerCase_def lowerChar_def)

lemma example_head_profile: "SAFE_BIN_PROFILES ''head'' = Some headProfile"
  by (simp add: SAFE_BIN_PROFILES_def)

lemma validate_head_no_args: "validateSafeBinArgv [] headProfile"
  by (simp add: validateSafeBinArgv_def scanArgs_def scanLoop.simps headProfile_def)

lemma example_head_usage:
  "isSafeBinUsage (exampleCollaborators host) [''head''] (resolution (exampleSegment ''head''))
     {''head''} None =
   (\<not> startsWith (toLowerCase (trim host)) ''win'')"
  by (simp add: isSafeBinUsage_def example_defs toLowerCase_head example_head_profile
      validate_head_no_args startsWith_def)

lemma windows_win32: "startsWith (toLowerCase (trim ''win32'')) ''win''"
  by (simp add: startsWith_def toLowerCase_def lowerChar_def trim_def isWhiteSpace_def)

lemma windows_linux: "\<not> startsWith (toLowerCase (trim ''linux'')) ''win''"
  by (simp add: startsWith_def toLowerCase_def lowerChar_def trim_def isWhiteSpace_def)

lemma windows_darwin: "\<not> startsWith (toLowerCase (trim ''darwin'')) ''win''"
  by (simp add: startsWith_def toLowerCase_def lowerChar_def trim_def isWhiteSpace_def)

lemma example_head_shell:
  "evaluateShellAllowlist (exampleCollaborators host) (exampleShellParams plat) =
     \<lparr>analysisOk = True,
      allowlistSatisfiedA = (\<not> startsWith (toLowerCase (trim host)) ''win''),
      allowlistMatchesA = [],
      segmentsA = [exampleSegment ''head''],
      segmentSatisfiedByA =
        [if startsWith (toLowerCase (trim host)) ''win'' then None else Some SafeBins]\<rparr>"
proof -
  have seg: "evaluateSegment (exampleCollaborators host) (exampleShellParams plat)
               (exampleSegment ''head'') =
             (None, if startsWith (toLowerCase (trim host)) ''win'' then None else Some SafeBins)"
    using example_head_usage [of host]
    by (simp add: evaluateSegment_def example_defs)
  have an: "analyzeShellCommand (exampleCollaborators host) ''head'' None None plat =
              \<lparr>ok = True, segments = [exampleSegment ''head''], chains = None\<rparr>"
    and sp: "splitCommandChain (exampleCollaborators host) ''head'' = None"
    by (simp_all add: exampleCollaborators_def)
  have ps: "command (exampleShellParams plat) = ''head''" "cwd (exampleShellParams plat) = None"
    "env (exampleShellParams plat) = None" "platform (exampleShellParams plat) = plat"
    by (simp_all add: exampleShellParams_def)
  show ?thesis
    by (simp add: evaluateShellAllowlist_def ps an sp evaluateExecAllowlist_def
        evaluateSegments_def seg Let_def)
qed

lemma isSafeBinUsage_host:
  assumes "isWindowsPlatform ext (Defined q) = isWindowsPlatform ext (Defined (processPlatform ext))"
    and "(q = ''win32'') = (processPlatform ext = ''win32'')"
  shows "isSafeBinUsage (ext\<lparr>processPlatform := q\<rparr>) a r s d = isSafeBinUsage ext a r s d"
  using assms by (auto simp: isSafeBinUsage_def Let_def split: option.splits)

lemma evaluateSegment_host:
  assumes "isWindowsPlatform ext (Defined q) = isWindowsPlatform ext (Defined (processPlatform ext))"
    and "(q = ''win32'') = (processPlatform ext = ''win32'')"
  shows "evaluateSegment (ext\<lparr>processPlatform := q\<rparr>) params segment =
         evaluateSegment ext params segment"
  by (simp add: evaluateSegment_def isSafeBinUsage_host [OF assms])

lemma everySegment_host:
  assumes "isWindowsPlatform ext (Defined q) = isWindowsPlatform ext (Defined (processPlatform ext))"
    and "(q = ''win32'') = (processPlatform ext = ''win32'')"
  shows "everySegment (ext\<lparr>processPlatform := q\<rparr>) params segs ms sby =
         everySegment ext params segs ms sby"
  by (induction segs arbitrary: ms sby)
     (simp_all add: evaluateSegment_host [OF assms] Let_def split: prod.splits)

lemma evaluateChains_host:
  assumes "isWindowsPlatform ext (Defined q) = isWindowsPlatform ext (Defined (processPlatform ext))"
    and "(q = ''win32'') = (processPlatform ext = ''win32'')"
  shows "evaluateChains (ext\<lparr>processPlatform := q\<rparr>) params cs ms sby =
         evaluateChains ext params cs ms sby"
  by (induction cs arbitrary: ms sby)
     (simp_all add: evaluateSegments_def everySegment_host [OF assms] Let_def)

lemma evaluateExecAllowlist_host:
  assumes "isWindowsPlatform ext (Defined q) = isWindowsPlatform ext (Defined (processPlatform ext))"
    and "(q = ''win32'') = (processPlatform ext = ''win32'')"
  shows "evaluateExecAllowlist (ext\<lparr>processPlatform := q\<rparr>) analysis params =
         evaluateExecAllowlist ext analysis params"
  by (simp add: evaluateExecAllowlist_def evaluateSegments_def
      everySegment_host [OF assms] evaluateChains_host [OF assms] Let_def split: option.splits)

lemma evaluateParts_host:
  assumes "isWindowsPlatform ext (Defined q) = isWindowsPlatform ext (Defined (processPlatform ext))"
    and "(q = ''win32'') = (processPlatform ext = ''win32'')"
  shows "evaluateParts (ext\<lparr>processPlatform := q\<rparr>) params parts ms segs sby =
         evaluateParts ext params parts ms segs sby"
  by (induction parts arbitrary: ms segs sby)
     (simp_all add: evaluateExecAllowlist_host [OF assms] Let_def)

text \<open>
  Claim C2, as stated, fails.  \<open>isSafeBinUsage\<close> has no platform parameter; it reads the
  host's \<open>process.platform\<close>.  On a Linux host, a caller that passes the simulated platform
  \<open>win32\<close> to \<open>evaluateShellAllowlist\<close> still gets the command \<open>head\<close> approved by the
  safe-bin gate.
\<close>

theorem simulated_windows_platform_not_seen_by_gate:
  "isWindowsPlatform (exampleCollaborators ''linux'')
     (platform (exampleShellParams (Defined ''win32''))) \<and>
   isSafeBinUsage (exampleCollaborators ''linux'') [''head'']
     (resolution (exampleSegment ''head'')) {''head''} None \<and>
   segmentSatisfiedByA (evaluateShellAllowlist (exampleCollaborators ''linux'')
     (exampleShellParams (Defined ''win32''))) = [Some SafeBins]"
  by (simp add: example_head_shell example_head_usage windows_linux)
     (simp add: example_defs windows_win32)

text \<open>
  Claim C2, amended.  Whenever \<open>isWindowsPlatform\<close> holds of the host's
  \<open>process.platform\<close>, \<open>isSafeBinUsage\<close> returns false, whatever the argv, the
  resolution, the safe bins and the trusted directories are.
\<close>

theorem isSafeBinUsage_false_on_windows_host:
  "isWindowsPlatform ext (Defined (processPlatform ext)) \<Longrightarrow>
   isSafeBinUsage ext args res bins dirs = False"
  by (simp add: isSafeBinUsage_def)

theorem isSafeBinUsage_false_on_windows_host_witness:
  "isSafeBinUsage (exampleCollaborators ''linux'') [''head'']
     (resolution (exampleSegment ''head'')) {''head''} None = True \<and>
   isSafeBinUsage (exampleCollaborators ''win32'') [''head'']
     (resolution (exampleSegment ''head'')) {''head''} None = False"
proof -
  have h: "isWindowsPlatform (exampleCollaborators ''win32'')
             (Defined (processPlatform (exampleCollaborators ''win32'')))"
    by (simp add: exampleCollaborators_def windows_win32)
  show ?thesis
    using isSafeBinUsage_false_on_windows_host [OF h, of "[''head'']"
        "resolution (exampleSegment ''head'')" "{''head''}" None]
    by (simp add: example_head_usage windows_linux)
qed

text \<open>
  Claim C8, as stated, fails.  The result depends on the host's \<open>process.platform\<close>,
  which is not among the parameters: with the same parameters and the same
  collaborator functions, the command \<open>head\<close> is approved on a Linux host and denied on
  a Windows host.
\<close>

theorem decision_depends_on_host_platform:
  "exampleCollaborators ''win32'' = (exampleCollaborators ''linux'')\<lparr>processPlatform := ''win32''\<rparr> \<and>
   allowlistSatisfiedA (evaluateShellAllowlist (exampleCollaborators ''linux'')
     (exampleShellParams (Defined ''linux''))) = True \<and>
   allowlistSatisfiedA (evaluateShellAllowlist (exampleCollaborators ''win32'')
     (exampleShellParams (Defined ''linux''))) = False"
  by (simp add: example_head_shell windows_linux windows_win32)
     (simp add: exampleCollaborators_def)

text \<open>
  Claim C8, amended.  \<open>evaluateShellAllowlist\<close> is a function of its parameters, of the
  collaborators and of the host's \<open>process.platform\<close>, and it depends on the latter only
  through \<open>isWindowsPlatform(process.platform)\<close> and \<open>process.platform === "win32"\<close>: two
  runs with the same parameters and collaborators on hosts that agree on these two tests
  return the same result.
\<close>

theorem evaluateShellAllowlist_host_platform:
  assumes "isWindowsPlatform ext (Defined q) = isWindowsPlatform ext (Defined (processPlatform ext))"
    and "(q = ''win32'') = (processPlatform ext = ''win32'')"
  shows "evaluateShellAllowlist (ext\<lparr>processPlatform := q\<rparr>) params =
         evaluateShellAllowlist ext params"
  by (simp add: evaluateShellAllowlist_def evaluateExecAllowlist_host [OF assms]
      evaluateParts_host [OF assms] Let_def split: option.splits)

theorem evaluateShellAllowlist_host_platform_witness:
  "evaluateShellAllowlist ((exampleCollaborators ''darwin'')\<lparr>processPlatform := ''linux''\<rparr>)
     (exampleShellParams (Defined ''linux'')) =
   evaluateShellAllowlist (exampleCollaborators ''darwin'') (exampleShellParams (Defined ''linux'')) \<and>
   allowlistSatisfiedA (evaluateShellAllowlist (exampleCollaborators ''darwin'')
     (exampleShellParams (Defined ''linux'')))"
proof -
  have h1: "isWindowsPlatform (exampleCollaborators ''darwin'') (Defined ''linux'') =
            isWindowsPlatform (exampleCollaborators ''darwin'')
              (Defined (processPlatform (exampleCollaborators ''darwin'')))"
    by (simp add: exampleCollaborators_def windows_linux windows_darwin)
  have h2: "(''linux'' = ''win32'') =
            (processPlatform (exampleCollaborators ''darwin'') = ''win32'')"
    by (simp add: exampleCollaborators_def)
  show ?thesis
    using evaluateShellAllowlist_host_platform [OF h1 h2, of "exampleShellParams (Defined ''linux'')"]
    by (simp add: example_head_shell windows_darwin)
qed

text \<open>
  Claim C9.  \<open>resolveSafeBins(undefined)\<close> is \<open>normalizeSafeBins(DEFAULT_SAFE_BINS)\<close>; on
  any other value, \<open>null\<close> and \<open>[]\<close> included, \<open>resolveSafeBins\<close> gives what
  \<open>normalizeSafeBins\<close> gives on that value, and \<open>resolveSafeBins(null)\<close> is the empty set;
  \<open>normalizeSafeBins\<close> of an array is the set of its entries trimmed and lowercased,
  without those that become empty, and \<open>normalizeSafeBins\<close> of a non-array is empty.
\<close>

theorem resolveSafeBins_normalizeSafeBins:
  "resolveSafeBins defaults Undefined = normalizeSafeBins (Defined defaults) \<and>
   (entries \<noteq> Undefined \<longrightarrow> resolveSafeBins defaults entries = normalizeSafeBins entries) \<and>
   resolveSafeBins defaults Null = {} \<and>
   resolveSafeBins defaults (Defined []) = {} \<and>
   normalizeSafeBins (Defined es) =
     {toLowerCase (trim entry) | entry. entry \<in> set es \<and> toLowerCase (trim entry) \<noteq> []} \<and>
   normalizeSafeBins Undefined = {} \<and>
   normalizeSafeBins Null = {} \<and>
   normalizeSafeBins (Defined [''JQ'', '' grep '', '''']) = {''jq'', ''grep''}"
proof -
  have "normalizeSafeBins (Defined [''JQ'', '' grep '', '''']) = {''jq'', ''grep''}"
    by code_simp
  moreover have "normalizeSafeBins (Defined es) =
     {toLowerCase (trim entry) | entry. entry \<in> set es \<and> toLowerCase (trim entry) \<noteq> []}"
    by (auto simp: normalizeSafeBins_def)
  moreover have "entries \<noteq> Undefined \<longrightarrow>
      resolveSafeBins defaults entries = normalizeSafeBins entries"
    by (cases entries) (simp_all add: resolveSafeBins_def normalizeSafeBins_def)
  ultimately show ?thesis
    by (simp add: resolveSafeBins_def normalizeSafeBins_def)
qed

theorem resolveSafeBins_normalizeSafeBins_witness:
  "resolveSafeBins [''jq''] Null = normalizeSafeBins Null \<and>
   resolveSafeBins [''jq''] Null = {} \<and>
   resolveSafeBins [''jq''] Undefined = {''jq''} \<and>
   resolveSafeBins [''jq''] (Defined [''JQ'', '' grep '', '''']) = {''jq'', ''grep''}"
proof -
  have jq: "normalizeSafeBins (Defined [''jq'']) = {''jq''}"
    by code_simp
  have h1: "Null \<noteq> (Undefined :: string list optional)"
    and h2: "Defined [''JQ'', '' grep '', [] :: string] \<noteq> Undefined"
    by simp_all
  show ?thesis
    using h1 h2 jq
      resolveSafeBins_normalizeSafeBins [of "[''jq'']" Null "[''jq'']"]
      resolveSafeBins_normalizeSafeBins
        [of "[''jq'']" "Defined [''JQ'', '' grep '', []]" "[''jq'']"]
    by simp
qed

section \<open>Properties of the argv validator\<close>

lemma unsafe_not_trivial: "\<not> isSafeLiteralToken v \<Longrightarrow> v \<noteq> [] \<and> v \<noteq> ''-''"
  by (auto simp: isSafeLiteralToken_def)

lemma startsWith_dash: "startsWith s ''-'' = (\<exists>t. s = CHR ''-'' # t)"
  by (cases s) (auto simp: startsWith_def)

lemma startsWith_dashdash: "startsWith s ''--'' = (\<exists>t. s = CHR ''-'' # CHR ''-'' # t)"
proof (cases s)
  case Nil
  then show ?thesis by (simp add: startsWith_def)
next
  case (Cons a t)
  then show ?thesis by (cases t) (auto simp: startsWith_def)
qed

lemma scanRest_unsafe:
  "\<exists>r \<in> set rest. \<not> isSafeLiteralToken r \<Longrightarrow> scanRest rest positional = None"
proof (induction rest arbitrary: positional)
  case Nil
  then show ?case by simp
next
  case (Cons r rest)
  show ?case
  proof (cases "isSafeLiteralToken r")
    case True
    with Cons.prems have "\<exists>r \<in> set rest. \<not> isSafeLiteralToken r" by auto
    then show ?thesis by (simp add: Cons.IH)
  next
    case False
    with unsafe_not_trivial [OF False] show ?thesis by simp
  qed
qed

lemma indexFrom_takeWhile:
  "indexFrom s c k =
     (if c \<in> set s then k + int (length (takeWhile (\<lambda>x. x \<noteq> c) s)) else -1)"
  by (induction s arbitrary: k) auto

lemma indexOf_takeWhile:
  "indexOf s c = (if c \<in> set s then int (length (takeWhile (\<lambda>x. x \<noteq> c) s)) else -1)"
  by (simp add: indexOf_def indexFrom_takeWhile)

lemma takeWhile_absent: "c \<notin> set s \<Longrightarrow> takeWhile (\<lambda>x. x \<noteq> c) s = s"
  by (induction s) auto

text \<open>For a long flag, the name the scan looks up is the part before the first \<open>=\<close>.\<close>

lemma long_flag_name:
  assumes "startsWith token ''--''"
  shows "(if indexOf token (CHR ''='') > 0 then take (nat (indexOf token (CHR ''=''))) token
          else token) = takeWhile (\<lambda>x. x \<noteq> CHR ''='') token"
proof (cases "CHR ''='' \<in> set token")
  case True
  from assms obtain t where "token = CHR ''-'' # CHR ''-'' # t"
    by (auto simp: startsWith_dashdash)
  then have "0 < length (takeWhile (\<lambda>x. x \<noteq> CHR ''='') token)"
    by simp
  with True show ?thesis
    by (simp add: indexOf_takeWhile takeWhile_eq_take [symmetric])
next
  case False
  then show ?thesis
    by (simp add: indexOf_takeWhile takeWhile_absent)
qed

lemma scanStep_long:
  assumes "startsWith (args ! i) ''--''" and "args ! i \<noteq> ''--''"
  shows "scanStep vf bf args i positional =
     (if takeWhile (\<lambda>x. x \<noteq> CHR ''='') (args ! i) \<in> bf then Reject
      else if indexOf (args ! i) (CHR ''='') > 0 then
        (if \<not> isSafeLiteralToken (drop (nat (indexOf (args ! i) (CHR ''='') + 1)) (args ! i))
         then Reject else Continue i positional)
      else if takeWhile (\<lambda>x. x \<noteq> CHR ''='') (args ! i) \<notin> vf then Continue i positional
      else consumeNext args i positional)"
proof -
  from assms(1) obtain t where t: "args ! i = CHR ''-'' # CHR ''-'' # t"
    by (auto simp: startsWith_dashdash)
  then have "args ! i \<noteq> []" and "args ! i \<noteq> ''-''" and "startsWith (args ! i) ''-''"
    by (simp_all add: startsWith_def)
  with assms show ?thesis
    unfolding scanStep_def Let_def long_flag_name [OF assms(1)]
    by simp
qed

lemma scanStep_cluster:
  assumes "args ! i = CHR ''-'' # cs" and "cs \<noteq> []" and "\<not> startsWith (args ! i) ''--''"
  shows "scanStep vf bf args i positional =
     (case scanCluster vf bf cs of
        ClusterReject \<Rightarrow> Reject
      | ClusterInlineValue \<Rightarrow> Continue i positional
      | ClusterNextValue \<Rightarrow> consumeNext args i positional
      | ClusterNoValue \<Rightarrow> if hasGlobToken (args ! i) then Reject else Continue i positional)"
proof -
  from assms(1,2) have "args ! i \<noteq> []" and "args ! i \<noteq> ''-''" and "startsWith (args ! i) ''-''"
    by (simp_all add: startsWith_def)
  moreover from assms(3) have "args ! i \<noteq> ''--''"
    by (auto simp: startsWith_def)
  ultimately show ?thesis
    using assms(1,3) by (simp add: scanStep_def Let_def)
qed

lemma isPathLikeToken_prefixes:
  "isPathLikeToken v =
     (startsWith (trim v) ''./'' \<or> startsWith (trim v) ''../'' \<or> startsWith (trim v) ''~'' \<or>
      startsWith (trim v) ''/'' \<or>
      (\<exists>a sep rest. trim v = a # CHR '':'' # sep # rest \<and> isAsciiLetter a \<and>
         (sep = CHR ''/'' \<or> sep = CHR 0x5C)))"
proof -
  have drive: "drivePrefix s =
      (\<exists>a sep rest. s = a # CHR '':'' # sep # rest \<and> isAsciiLetter a \<and>
         (sep = CHR ''/'' \<or> sep = CHR 0x5C))" for s
    by (cases s rule: drivePrefix.cases) auto
  have none: "\<not> startsWith s ''./'' \<and> \<not> startsWith s ''../'' \<and> \<not> startsWith s ''~'' \<and>
      \<not> startsWith s ''/'' \<and> \<not> drivePrefix s" if "s = [] \<or> s = ''-''" for s
    using that by (auto simp: startsWith_def)
  show ?thesis
    unfolding drive [symmetric] using none [of "trim v"]
    by (auto simp: isPathLikeToken_def Let_def)
qed

lemma long_flag_has_value:
  assumes "startsWith token ''--''"
  shows "(0 < indexOf token (CHR ''='')) = (CHR ''='' \<in> set token)"
proof -
  from assms obtain t where "token = CHR ''-'' # CHR ''-'' # t"
    by (auto simp: startsWith_dashdash)
  then have "0 < length (takeWhile (\<lambda>x. x \<noteq> CHR ''='') token)"
    by simp
  then show ?thesis
    by (simp add: indexOf_takeWhile)
qed

lemma long_flag_value:
  assumes "CHR ''='' \<in> set token"
  shows "drop (nat (indexOf token (CHR ''='') + 1)) token =
         drop 1 (dropWhile (\<lambda>x. x \<noteq> CHR ''='') token)"
proof -
  have "nat (indexOf token (CHR ''='') + 1) =
        1 + length (takeWhile (\<lambda>x. x \<noteq> CHR ''='') token)"
    using assms by (simp add: indexOf_takeWhile)
  then show ?thesis
    by (simp add: dropWhile_eq_drop drop_Suc tl_drop)
qed

lemma consumeNext_Continue:
  assumes "consumeNext args i positional = Continue i' p"
  shows "i' = i + 1" and "i + 1 < length args" and "isSafeLiteralToken (args ! (i + 1))"
  using assms
  by (auto simp: consumeNext_def argAt_def split: if_splits)

text \<open>
  What a cluster scan that does not reject has established about the flag characters
  and the value part of the cluster.
\<close>

lemma scanCluster_flag_chars:
  "scanCluster vf bf cs \<noteq> ClusterReject \<Longrightarrow>
   \<forall>c \<in> set (clusterFlagChars vf cs). [CHR ''-'', c] \<notin> bf"
  by (induction cs) (auto simp: clusterFlagChars_def Let_def split: if_splits)

lemma scanCluster_no_value:
  "scanCluster vf bf cs \<noteq> ClusterReject \<Longrightarrow> clusterValuePart vf cs = [] \<Longrightarrow>
   scanCluster vf bf cs = ClusterNoValue"
  by (induction cs) (auto simp: clusterValuePart_def Let_def split: if_splits)

lemma scanCluster_value:
  "scanCluster vf bf cs \<noteq> ClusterReject \<Longrightarrow> clusterValuePart vf cs = c # inline \<Longrightarrow>
   [CHR ''-'', c] \<notin> bf \<and>
   (if inline = [] then scanCluster vf bf cs = ClusterNextValue
    else scanCluster vf bf cs = ClusterInlineValue \<and> isSafeLiteralToken inline)"
  by (induction cs) (auto simp: clusterValuePart_def Let_def split: if_splits)

text \<open>
  A pass through the loop body that goes on to the next iteration has found no
  violation among the roles of its token, and has moved past the next token exactly
  when the token takes it as a value, which then is a safe literal.
\<close>

lemma scanStep_Continue_roles:
  assumes step: "scanStep vf bf args i positional = Continue i' p"
  shows "args ! i \<noteq> ''--''"
    and "\<forall>r \<in> set (tokenRoles vf (args ! i)). \<not> violates bf r"
    and "takesNextToken vf (args ! i) \<Longrightarrow>
           i' = i + 1 \<and> i + 1 < length args \<and> isSafeLiteralToken (args ! (i + 1))"
    and "\<not> takesNextToken vf (args ! i) \<Longrightarrow> i' = i"
proof -
  let ?t = "args ! i"
  show nt: "?t \<noteq> ''--''"
    using step by (auto simp: scanStep_def split: option.splits)
  consider (skip) "?t = [] \<or> ?t = ''-''"
    | (pos) "?t \<noteq> []" "\<not> startsWith ?t ''-''"
    | (long) "startsWith ?t ''--''"
    | (cluster) "?t \<noteq> ''-''" "startsWith ?t ''-''" "\<not> startsWith ?t ''--''"
    by (cases "?t = []") (auto simp: startsWith_def)
  then have "(\<forall>r \<in> set (tokenRoles vf ?t). \<not> violates bf r) \<and>
      (takesNextToken vf ?t \<longrightarrow>
         i' = i + 1 \<and> i + 1 < length args \<and> isSafeLiteralToken (args ! (i + 1))) \<and>
      (\<not> takesNextToken vf ?t \<longrightarrow> i' = i)"
  proof cases
    case skip
    with step show ?thesis
      by (auto simp: scanStep_def tokenRoles_def takesNextToken_def startsWith_def)
  next
    case pos
    then have "?t \<noteq> ''-''" and "?t \<noteq> ''--''"
      by (auto simp: startsWith_def)
    with pos step show ?thesis
      by (auto simp: scanStep_def tokenRoles_def takesNextToken_def Let_def split: if_splits)
  next
    case long
    then have sd: "startsWith ?t ''-''" and ne: "?t \<noteq> []" "?t \<noteq> ''-''"
      by (auto simp: startsWith_dashdash startsWith_dash)
    note s = step [unfolded scanStep_long [OF long nt]]
    show ?thesis
    proof (cases "CHR ''='' \<in> set ?t")
      case True
      with s long sd ne show ?thesis
        by (auto simp: tokenRoles_def takesNextToken_def long_flag_has_value [OF long]
            long_flag_value split: if_splits)
    next
      case False
      with s long sd ne consumeNext_Continue [of args i positional i' p] show ?thesis
        by (auto simp: tokenRoles_def takesNextToken_def long_flag_has_value [OF long]
            takeWhile_absent split: if_splits)
    qed
  next
    case cluster
    from cluster(2) obtain cs where t: "?t = CHR ''-'' # cs"
      by (auto simp: startsWith_dash)
    with cluster(1) have cs: "cs \<noteq> []" by auto
    note s = step [unfolded scanStep_cluster [OF t cs cluster(3)]]
    then have nr: "scanCluster vf bf cs \<noteq> ClusterReject"
      by auto
    have d: "drop 1 ?t = cs" using t by simp
    show ?thesis
    proof (cases "clusterValuePart vf cs")
      case Nil
      from scanCluster_no_value [OF nr Nil] s scanCluster_flag_chars [OF nr] cluster t Nil
      show ?thesis
        by (auto simp: tokenRoles_def takesNextToken_def d split: if_splits)
    next
      case (Cons c inline)
      from scanCluster_value [OF nr Cons] s scanCluster_flag_chars [OF nr] cluster t Cons
        consumeNext_Continue [of args i positional i' p]
      show ?thesis
        by (auto simp: tokenRoles_def takesNextToken_def d split: if_splits)
    qed
  qed
  then show "\<forall>r \<in> set (tokenRoles vf ?t). \<not> violates bf r"
    and "takesNextToken vf ?t \<Longrightarrow>
           i' = i + 1 \<and> i + 1 < length args \<and> isSafeLiteralToken (args ! (i + 1))"
    and "\<not> takesNextToken vf ?t \<Longrightarrow> i' = i"
    by blast+
qed

lemma scanStep_Break:
  assumes "scanStep vf bf args i positional = Break p"
  shows "args ! i = ''--''" and "scanRest (drop (i + 1) args) positional = Some p"
  using assms
  by (auto simp: scanStep_def consumeNext_def Let_def
      split: if_splits option.splits cluster_result.splits)

text \<open>
  The scan refines the specification: it rejects every argv in which some role is
  violated.
\<close>

lemma scanLoop_violation:
  "\<exists>r \<in> set (rolesSpec vf (drop i args)). violates bf r \<Longrightarrow>
   scanLoop vf bf args i positional = None"
proof (induction vf bf args i positional rule: scanLoop.induct)
  case (1 vf bf args i positional)
  show ?case
  proof (cases "i < length args")
    case False
    with "1.prems" show ?thesis by simp
  next
    case True
    then have dr: "drop i args = args ! i # drop (i + 1) args"
      by (simp add: Cons_nth_drop_Suc)
    show ?thesis
    proof (cases "scanStep vf bf args i positional")
      case Reject
      with True show ?thesis
        by (subst scanLoop.simps) simp
    next
      case (Break p)
      from scanStep_Break [OF Break] "1.prems" dr
      have "\<exists>r \<in> set (drop (i + 1) args). \<not> isSafeLiteralToken r"
        by auto
      from scanRest_unsafe [OF this, of positional] scanStep_Break(2) [OF Break]
      show ?thesis by simp
    next
      case (Continue i' p)
      note facts = scanStep_Continue_roles [OF Continue]
      have "\<exists>r \<in> set (rolesSpec vf (drop (i' + 1) args)). violates bf r"
      proof (cases "takesNextToken vf (args ! i)")
        case False
        with facts(4) have "i' = i" by simp
        with "1.prems" dr facts(1,2) False show ?thesis
          by auto
      next
        case tk: True
        with facts(3) have i': "i' = i + 1" and lt: "i + 1 < length args"
          and safe: "isSafeLiteralToken (args ! (i + 1))"
          by simp_all
        from lt have dr': "drop (i + 1) args = args ! (i + 1) # drop (i + 2) args"
          using Cons_nth_drop_Suc [of "i + 1" args] by simp
        from "1.prems" dr dr' facts(1,2) tk safe i' show ?thesis
          by auto
      qed
      from "1.IH" [OF True Continue this] have "scanLoop vf bf args (i' + 1) p = None" .
      with True Continue show ?thesis
        by (subst scanLoop.simps) simp
    qed
  qed
qed

lemma argvRoles_violation:
  assumes "r \<in> set (argvRoles profile args)"
    and "violates (orNoFlags (blockedFlags profile)) r"
  shows "\<not> validateSafeBinArgv args profile"
proof -
  from assms have "\<exists>r \<in> set (rolesSpec (orNoFlags (valueFlags profile)) (drop 0 args)).
      violates (orNoFlags (blockedFlags profile)) r"
    by (auto simp: argvRoles_def)
  from scanLoop_violation [OF this, of "[]"] show ?thesis
    by (simp add: validateSafeBinArgv_def scanArgs_def)
qed

text \<open>Every token that does not start with \<open>-\<close> is a positional or the value of a flag.\<close>

lemma rolesSpec_plain_token:
  "t \<in> set args \<Longrightarrow> t \<noteq> [] \<Longrightarrow> \<not> startsWith t ''-'' \<Longrightarrow>
   Positional t \<in> set (rolesSpec vf args) \<or> FlagValue t \<in> set (rolesSpec vf args)"
proof (induction vf args rule: rolesSpec.induct)
  case (1 vf)
  then show ?case by simp
next
  case (2 vf t' rest)
  have nd: "t \<noteq> ''-''" "t \<noteq> ''--''"
    using "2.prems"(3) by (auto simp: startsWith_def)
  show ?case
  proof (cases "t' = ''--''")
    case True
    with "2.prems" nd show ?thesis by auto
  next
    case nt: False
    show ?thesis
    proof (cases "takesNextToken vf t'")
      case tk: True
      then have "startsWith t' ''-''"
        by (auto simp: takesNextToken_def split: if_splits)
      with "2.prems"(3) have ne: "t \<noteq> t'" by auto
      show ?thesis
      proof (cases rest)
        case Nil
        with "2.prems"(1) ne show ?thesis by simp
      next
        case (Cons v rest')
        show ?thesis
        proof (cases "t = v")
          case True
          with nt tk Cons show ?thesis by simp
        next
          case False
          with "2.prems" ne Cons have "t \<in> set rest'" by simp
          from "2.IH"(1) [OF nt tk Cons this "2.prems"(2,3)] nt tk Cons
          show ?thesis by auto
        qed
      qed
    next
      case tk: False
      show ?thesis
      proof (cases "t = t'")
        case True
        with "2.prems" nt tk nd show ?thesis
          by (simp add: tokenRoles_def)
      next
        case False
        with "2.prems"(1) have "t \<in> set rest" by simp
        from "2.IH"(2) [OF nt tk this "2.prems"(2,3)] nt tk
        show ?thesis by auto
      qed
    qed
  qed
qed

text \<open>
  Tokens that are neither \<open>--\<close> nor take the next token as a value leave the roles of
  what follows them unchanged.
\<close>

lemma rolesSpec_prefix:
  "\<forall>u \<in> set pre. u \<noteq> ''--'' \<and> \<not> takesNextToken vf u \<Longrightarrow>
   rolesSpec vf (pre @ rest) = concat (map (tokenRoles vf) pre) @ rolesSpec vf rest"
  by (induction pre) simp_all

lemma rolesSpec_after_prefix:
  assumes "\<forall>u \<in> set pre. u \<noteq> ''--'' \<and> \<not> takesNextToken vf u"
    and "r \<in> set (rolesSpec vf rest)"
  shows "r \<in> set (rolesSpec vf (pre @ rest))"
  using assms(2) by (simp add: rolesSpec_prefix [OF assms(1)])

lemma tokenRoles_long_flag:
  assumes "startsWith t ''--''" and "t \<noteq> ''--''"
  shows "Flag (takeWhile (\<lambda>c. c \<noteq> CHR ''='') t) \<in> set (tokenRoles vf t)"
proof -
  from assms(1) have "startsWith t ''-''" and "t \<noteq> []" and "t \<noteq> ''-''"
    by (auto simp: startsWith_dashdash startsWith_dash)
  with assms show ?thesis
    by (simp add: tokenRoles_def takeWhile_absent)
qed

lemma clusterFlagChars_upto:
  "\<forall>x \<in> set cpre. [CHR ''-'', x] \<notin> vf \<Longrightarrow>
   c \<in> set (clusterFlagChars vf (cpre @ c # crest)) \<or>
   clusterValuePart vf (cpre @ c # crest) = c # crest"
  by (induction cpre) (auto simp: clusterFlagChars_def clusterValuePart_def)

lemma tokenRoles_cluster_flag:
  assumes "t = CHR ''-'' # cpre @ c # crest" and "\<not> startsWith t ''--''"
    and "\<forall>x \<in> set cpre. [CHR ''-'', x] \<notin> vf"
  shows "Flag [CHR ''-'', c] \<in> set (tokenRoles vf t)"
proof -
  from assms(1) have "startsWith t ''-''" and "t \<noteq> []" and "t \<noteq> ''-''"
    and d: "drop 1 t = cpre @ c # crest"
    by (auto simp: startsWith_dash)
  with assms(2) have roles: "tokenRoles vf t =
      map (\<lambda>c. Flag [CHR ''-'', c]) (clusterFlagChars vf (cpre @ c # crest)) @
      (case clusterValuePart vf (cpre @ c # crest) of
         [] \<Rightarrow> []
       | c # inline \<Rightarrow> Flag [CHR ''-'', c] # (if inline = [] then [] else [FlagValue inline]))"
    by (simp add: tokenRoles_def)
  from clusterFlagChars_upto [OF assms(3), of c crest] show ?thesis
  proof
    assume "c \<in> set (clusterFlagChars vf (cpre @ c # crest))"
    then show ?thesis unfolding roles by simp
  next
    assume "clusterValuePart vf (cpre @ c # crest) = c # crest"
    then show ?thesis unfolding roles by simp
  qed
qed

text \<open>
  Claim C5.  A token is a safe literal iff it is empty, exactly \<open>-\<close>, or neither
  contains one of the glob characters \<open>* ? [ ]\<close> nor is path-like, that is, after
  trimming, starts with \<open>./\<close>, \<open>../\<close>, \<open>~\<close>, \<open>/\<close> or a drive-letter prefix.  For
  every profile and argv, \<open>validateSafeBinArgv\<close> returns false whenever a token that
  the specification makes a positional or the value of a flag is not a safe literal.  In
  particular it returns false whenever some token that does not start with \<open>-\<close> is not
  a safe literal, whenever some token after a \<open>--\<close> that is read as the terminator is
  not a safe literal, and whenever the token that a flag takes as its value is not a
  safe literal.  The three examples of the specification evaluate as stated.
\<close>

theorem validateSafeBinArgv_rejects_unsafe_literal:
  "(isSafeLiteralToken v \<longleftrightarrow>
      v = [] \<or> v = ''-'' \<or> (\<not> hasGlobToken v \<and> \<not> isPathLikeToken v)) \<and>
   (hasGlobToken v \<longleftrightarrow>
      (\<exists>c \<in> set v. c = CHR ''*'' \<or> c = CHR ''?'' \<or> c = CHR ''['' \<or> c = CHR '']'')) \<and>
   (isPathLikeToken v \<longleftrightarrow>
      startsWith (trim v) ''./'' \<or> startsWith (trim v) ''../'' \<or> startsWith (trim v) ''~'' \<or>
      startsWith (trim v) ''/'' \<or>
      (\<exists>a sep rest. trim v = a # CHR '':'' # sep # rest \<and> isAsciiLetter a \<and>
         (sep = CHR ''/'' \<or> sep = CHR 0x5C))) \<and>
   ((Positional t \<in> set (argvRoles profile args) \<or> FlagValue t \<in> set (argvRoles profile args)) \<and>
      \<not> isSafeLiteralToken t \<longrightarrow> \<not> validateSafeBinArgv args profile) \<and>
   ((\<exists>u \<in> set args. \<not> startsWith u ''-'' \<and> \<not> isSafeLiteralToken u) \<longrightarrow>
      \<not> validateSafeBinArgv args profile) \<and>
   ((\<forall>u \<in> set pre. u \<noteq> ''--'' \<and> \<not> takesNextToken (orNoFlags (valueFlags profile)) u) \<and>
      (\<exists>u \<in> set others. \<not> isSafeLiteralToken u) \<longrightarrow>
      \<not> validateSafeBinArgv (pre @ ''--'' # others) profile) \<and>
   ((\<forall>u \<in> set pre. u \<noteq> ''--'' \<and> \<not> takesNextToken (orNoFlags (valueFlags profile)) u) \<and>
      flag \<noteq> ''--'' \<and> takesNextToken (orNoFlags (valueFlags profile)) flag \<and>
      \<not> isSafeLiteralToken val \<longrightarrow>
      \<not> validateSafeBinArgv (pre @ flag # val # others) profile) \<and>
   validateSafeBinArgv [''-n'', ''5''] headProfile \<and>
   \<not> validateSafeBinArgv [''-n'', ''./etc/passwd''] headProfile \<and>
   \<not> validateSafeBinArgv [''a*.txt''] SAFE_BIN_GENERIC_PROFILE"
proof (intro conjI impI)
  show "isSafeLiteralToken v \<longleftrightarrow>
      v = [] \<or> v = ''-'' \<or> (\<not> hasGlobToken v \<and> \<not> isPathLikeToken v)"
    by (simp add: isSafeLiteralToken_def)
  show "hasGlobToken v \<longleftrightarrow>
      (\<exists>c \<in> set v. c = CHR ''*'' \<or> c = CHR ''?'' \<or> c = CHR ''['' \<or> c = CHR '']'')"
    by (simp add: hasGlobToken_def globChars_def)
  show "isPathLikeToken v \<longleftrightarrow>
      startsWith (trim v) ''./'' \<or> startsWith (trim v) ''../'' \<or> startsWith (trim v) ''~'' \<or>
      startsWith (trim v) ''/'' \<or>
      (\<exists>a sep rest. trim v = a # CHR '':'' # sep # rest \<and> isAsciiLetter a \<and>
         (sep = CHR ''/'' \<or> sep = CHR 0x5C))"
    by (rule isPathLikeToken_prefixes)
  show "validateSafeBinArgv [''-n'', ''5''] headProfile"
    by code_simp
  show "\<not> validateSafeBinArgv [''-n'', ''./etc/passwd''] headProfile"
    by code_simp
  show "\<not> validateSafeBinArgv [''a*.txt''] SAFE_BIN_GENERIC_PROFILE"
    by code_simp
next
  assume a: "(Positional t \<in> set (argvRoles profile args) \<or>
              FlagValue t \<in> set (argvRoles profile args)) \<and> \<not> isSafeLiteralToken t"
  then consider (p) "Positional t \<in> set (argvRoles profile args)"
    | (f) "FlagValue t \<in> set (argvRoles profile args)"
    by blast
  then show "\<not> validateSafeBinArgv args profile"
  proof cases
    case p
    from a have "violates (orNoFlags (blockedFlags profile)) (Positional t)" by simp
    from argvRoles_violation [OF p this] show ?thesis .
  next
    case f
    from a have "violates (orNoFlags (blockedFlags profile)) (FlagValue t)" by simp
    from argvRoles_violation [OF f this] show ?thesis .
  qed
next
  assume "\<exists>u \<in> set args. \<not> startsWith u ''-'' \<and> \<not> isSafeLiteralToken u"
  then obtain u where u: "u \<in> set args" "\<not> startsWith u ''-''" "\<not> isSafeLiteralToken u"
    by blast
  from unsafe_not_trivial [OF u(3)] have "u \<noteq> []" by simp
  from rolesSpec_plain_token [OF u(1) this u(2), of "orNoFlags (valueFlags profile)"]
  consider (p) "Positional u \<in> set (argvRoles profile args)"
    | (f) "FlagValue u \<in> set (argvRoles profile args)"
    by (auto simp: argvRoles_def)
  then show "\<not> validateSafeBinArgv args profile"
  proof cases
    case p
    from u(3) have "violates (orNoFlags (blockedFlags profile)) (Positional u)" by simp
    from argvRoles_violation [OF p this] show ?thesis .
  next
    case f
    from u(3) have "violates (orNoFlags (blockedFlags profile)) (FlagValue u)" by simp
    from argvRoles_violation [OF f this] show ?thesis .
  qed
next
  let ?vf = "orNoFlags (valueFlags profile)"
  assume a: "(\<forall>u \<in> set pre. u \<noteq> ''--'' \<and> \<not> takesNextToken ?vf u) \<and>
      (\<exists>u \<in> set others. \<not> isSafeLiteralToken u)"
  then obtain u where u: "u \<in> set others" "\<not> isSafeLiteralToken u"
    by blast
  from unsafe_not_trivial [OF u(2)] u(1)
  have "Positional u \<in> set (rolesSpec ?vf (''--'' # others))"
    by simp
  from rolesSpec_after_prefix [OF conjunct1 [OF a] this]
  have r: "Positional u \<in> set (argvRoles profile (pre @ ''--'' # others))"
    by (simp add: argvRoles_def)
  from u(2) have "violates (orNoFlags (blockedFlags profile)) (Positional u)" by simp
  from argvRoles_violation [OF r this]
  show "\<not> validateSafeBinArgv (pre @ ''--'' # others) profile" .
next
  let ?vf = "orNoFlags (valueFlags profile)"
  assume a: "(\<forall>u \<in> set pre. u \<noteq> ''--'' \<and> \<not> takesNextToken ?vf u) \<and>
      flag \<noteq> ''--'' \<and> takesNextToken ?vf flag \<and> \<not> isSafeLiteralToken val"
  then have "FlagValue val \<in> set (rolesSpec ?vf (flag # val # others))"
    by simp
  from rolesSpec_after_prefix [OF conjunct1 [OF a] this]
  have r: "FlagValue val \<in> set (argvRoles profile (pre @ flag # val # others))"
    by (simp add: argvRoles_def)
  from a have "violates (orNoFlags (blockedFlags profile)) (FlagValue val)" by simp
  from argvRoles_violation [OF r this]
  show "\<not> validateSafeBinArgv (pre @ flag # val # others) profile" .
qed

theorem validateSafeBinArgv_rejects_unsafe_literal_witness:
  "argvRoles tailProfile [''-fn'', ''/etc/passwd''] =
     [Flag ''-f'', Flag ''-n'', FlagValue ''/etc/passwd''] \<and>
   \<not> validateSafeBinArgv [''-fn'', ''/etc/passwd''] tailProfile \<and>
   argvRoles SAFE_BIN_GENERIC_PROFILE [''--verbose'', ''--'', ''-*''] =
     [Flag ''--verbose'', Positional ''-*''] \<and>
   \<not> validateSafeBinArgv [''--verbose'', ''--'', ''-*''] SAFE_BIN_GENERIC_PROFILE \<and>
   \<not> validateSafeBinArgv [''--verbose'', ''a*.txt'', ''~/.ssh/id_rsa''] SAFE_BIN_GENERIC_PROFILE \<and>
   \<not> validateSafeBinArgv [''-v'', ''--lines'', ''../x''] headProfile"
proof -
  let ?G = SAFE_BIN_GENERIC_PROFILE
  note T = validateSafeBinArgv_rejects_unsafe_literal
  have r1: "argvRoles tailProfile [''-fn'', ''/etc/passwd''] =
      [Flag ''-f'', Flag ''-n'', FlagValue ''/etc/passwd'']"
    by code_simp
  have u1: "\<not> isSafeLiteralToken ''/etc/passwd''"
    by code_simp
  have p1: "(Positional ''/etc/passwd'' \<in> set (argvRoles tailProfile [''-fn'', ''/etc/passwd'']) \<or>
       FlagValue ''/etc/passwd'' \<in> set (argvRoles tailProfile [''-fn'', ''/etc/passwd''])) \<and>
      \<not> isSafeLiteralToken ''/etc/passwd''"
    using r1 u1 by simp
  have a: "\<not> validateSafeBinArgv [''-fn'', ''/etc/passwd''] tailProfile"
    by (rule T [of "[]" "''/etc/passwd''" tailProfile "[''-fn'', ''/etc/passwd'']" "[]" "[]" "[]" "[]",
          THEN conjunct2, THEN conjunct2, THEN conjunct2, THEN conjunct1, THEN mp, OF p1])
  have r2: "argvRoles ?G [''--verbose'', ''--'', ''-*''] = [Flag ''--verbose'', Positional ''-*'']"
    by code_simp
  have u2: "\<not> isSafeLiteralToken ''-*''"
    by code_simp
  have n2: "\<not> takesNextToken (orNoFlags (valueFlags ?G)) ''--verbose''"
    by code_simp
  have p2: "(\<forall>u \<in> set [''--verbose''].
        u \<noteq> ''--'' \<and> \<not> takesNextToken (orNoFlags (valueFlags ?G)) u) \<and>
      (\<exists>u \<in> set [''-*'']. \<not> isSafeLiteralToken u)"
    using u2 n2 by simp
  have b: "\<not> validateSafeBinArgv [''--verbose'', ''--'', ''-*''] ?G"
    using T [of "[]" "[]" ?G "[]" "[''--verbose'']" "[''-*'']" "[]" "[]",
          THEN conjunct2, THEN conjunct2, THEN conjunct2, THEN conjunct2, THEN conjunct2,
          THEN conjunct1, THEN mp, OF p2]
    by simp
  have u3: "\<not> isSafeLiteralToken ''a*.txt''"
    by code_simp
  have p3: "\<exists>u \<in> set [''--verbose'', ''a*.txt'', ''~/.ssh/id_rsa''].
      \<not> startsWith u ''-'' \<and> \<not> isSafeLiteralToken u"
    using u3 by (simp add: startsWith_def)
  have c: "\<not> validateSafeBinArgv [''--verbose'', ''a*.txt'', ''~/.ssh/id_rsa''] ?G"
    by (rule T [of "[]" "[]" ?G "[''--verbose'', ''a*.txt'', ''~/.ssh/id_rsa'']" "[]" "[]" "[]" "[]",
          THEN conjunct2, THEN conjunct2, THEN conjunct2, THEN conjunct2, THEN conjunct1,
          THEN mp, OF p3])
  have u4: "\<not> isSafeLiteralToken ''../x''"
    by code_simp
  have n4: "\<not> takesNextToken (orNoFlags (valueFlags headProfile)) ''-v''"
    by code_simp
  have t4: "takesNextToken (orNoFlags (valueFlags headProfile)) ''--lines''"
    by code_simp
  have p4: "(\<forall>u \<in> set [''-v''].
        u \<noteq> ''--'' \<and> \<not> takesNextToken (orNoFlags (valueFlags headProfile)) u) \<and>
      ''--lines'' \<noteq> ''--'' \<and> takesNextToken (orNoFlags (valueFlags headProfile)) ''--lines'' \<and>
      \<not> isSafeLiteralToken ''../x''"
    using u4 n4 t4 by simp
  have d: "\<not> validateSafeBinArgv [''-v'', ''--lines'', ''../x''] headProfile"
    using T [of "[]" "[]" headProfile "[]" "[''-v'']" "[]" "''--lines''" "''../x''",
          THEN conjunct2, THEN conjunct2, THEN conjunct2, THEN conjunct2, THEN conjunct2,
          THEN conjunct2, THEN conjunct1, THEN mp, OF p4]
    by simp
  from r1 a r2 b c d show ?thesis by simp
qed

text \<open>
  Claim C6, as stated, fails.  A token whose name is blocked does not make the
  validation fail when the scan does not read it as a flag: for \<open>grep\<close>, \<open>--file\<close>
  after the value-flag \<open>--regexp\<close> and \<open>-r\<close> after the value-flag \<open>-A\<close> are taken as
  values, and \<open>--file\<close> after \<open>--\<close> is a positional; all three argvs are accepted.
\<close>

theorem blocked_name_not_read_as_flag_accepted:
  "isBlockedFlag grepProfile ''--file'' \<and> isBlockedFlag grepProfile ''-r'' \<and>
   validateSafeBinArgv [''--regexp'', ''--file''] grepProfile \<and>
   validateSafeBinArgv [''-A'', ''-r''] grepProfile \<and>
   validateSafeBinArgv [''--'', ''--file''] grepProfile"
  by code_simp

text \<open>
  Claim C6, amended.  For every profile and argv, \<open>validateSafeBinArgv\<close> returns false
  whenever a flag of the argv, in the roles the specification gives its tokens, is in
  the profile's \<open>blockedFlags\<close>.  In particular, for a token that no earlier token
  hides, none before it being \<open>--\<close> or taking the next token as a value, it returns false
  when the token is a long flag whose name, the part before any \<open>=\<close>, is blocked, and
  when it is a short-flag cluster with a character that, read as \<open>-x\<close>, is blocked and
  no character before it is a value-flag.  \<open>--files0-from list.txt\<close> fails for \<open>wc\<close>.
\<close>

theorem validateSafeBinArgv_rejects_blocked_flag:
  "(Flag f \<in> set (argvRoles profile args) \<and> isBlockedFlag profile f \<longrightarrow>
      \<not> validateSafeBinArgv args profile) \<and>
   ((\<forall>u \<in> set pre. u \<noteq> ''--'' \<and> \<not> takesNextToken (orNoFlags (valueFlags profile)) u) \<and>
      startsWith t ''--'' \<and> t \<noteq> ''--'' \<and>
      isBlockedFlag profile (takeWhile (\<lambda>x. x \<noteq> CHR ''='') t) \<longrightarrow>
      \<not> validateSafeBinArgv (pre @ t # others) profile) \<and>
   ((\<forall>u \<in> set pre. u \<noteq> ''--'' \<and> \<not> takesNextToken (orNoFlags (valueFlags profile)) u) \<and>
      t = CHR ''-'' # cpre @ c # crest \<and> \<not> startsWith t ''--'' \<and>
      (\<forall>x \<in> set cpre. \<not> isValueFlag profile [CHR ''-'', x]) \<and>
      isBlockedFlag profile [CHR ''-'', c] \<longrightarrow>
      \<not> validateSafeBinArgv (pre @ t # others) profile) \<and>
   \<not> validateSafeBinArgv [''--files0-from'', ''list.txt''] wcProfile"
proof (intro conjI impI)
  show "\<not> validateSafeBinArgv [''--files0-from'', ''list.txt''] wcProfile"
    by code_simp
next
  assume a: "Flag f \<in> set (argvRoles profile args) \<and> isBlockedFlag profile f"
  then have "violates (orNoFlags (blockedFlags profile)) (Flag f)"
    by (simp add: isBlockedFlag_def)
  from argvRoles_violation [OF conjunct1 [OF a] this]
  show "\<not> validateSafeBinArgv args profile" .
next
  let ?vf = "orNoFlags (valueFlags profile)"
  let ?name = "takeWhile (\<lambda>x. x \<noteq> CHR ''='') t"
  assume a: "(\<forall>u \<in> set pre. u \<noteq> ''--'' \<and> \<not> takesNextToken ?vf u) \<and>
      startsWith t ''--'' \<and> t \<noteq> ''--'' \<and> isBlockedFlag profile ?name"
  then have sw: "startsWith t ''--''" and nt: "t \<noteq> ''--''" by blast+
  from tokenRoles_long_flag [OF sw nt, of ?vf] nt
  have "Flag ?name \<in> set (rolesSpec ?vf (t # others))"
    by (cases "takesNextToken ?vf t") auto
  from rolesSpec_after_prefix [OF conjunct1 [OF a] this]
  have r: "Flag ?name \<in> set (argvRoles profile (pre @ t # others))"
    by (simp add: argvRoles_def)
  from a have "violates (orNoFlags (blockedFlags profile)) (Flag ?name)"
    by (simp add: isBlockedFlag_def)
  from argvRoles_violation [OF r this]
  show "\<not> validateSafeBinArgv (pre @ t # others) profile" .
next
  let ?vf = "orNoFlags (valueFlags profile)"
  assume a: "(\<forall>u \<in> set pre. u \<noteq> ''--'' \<and> \<not> takesNextToken ?vf u) \<and>
      t = CHR ''-'' # cpre @ c # crest \<and> \<not> startsWith t ''--'' \<and>
      (\<forall>x \<in> set cpre. \<not> isValueFlag profile [CHR ''-'', x]) \<and>
      isBlockedFlag profile [CHR ''-'', c]"
  then have t: "t = CHR ''-'' # cpre @ c # crest" and nd: "\<not> startsWith t ''--''"
    and cp: "\<forall>x \<in> set cpre. [CHR ''-'', x] \<notin> ?vf"
    unfolding isValueFlag_def by blast+
  from nd have nt: "t \<noteq> ''--''" by (auto simp: startsWith_def)
  from tokenRoles_cluster_flag [OF t nd cp] nt
  have "Flag [CHR ''-'', c] \<in> set (rolesSpec ?vf (t # others))"
    by (cases "takesNextToken ?vf t") auto
  from rolesSpec_after_prefix [OF conjunct1 [OF a] this]
  have r: "Flag [CHR ''-'', c] \<in> set (argvRoles profile (pre @ t # others))"
    by (simp add: argvRoles_def)
  from a have "violates (orNoFlags (blockedFlags profile)) (Flag [CHR ''-'', c])"
    by (simp add: isBlockedFlag_def)
  from argvRoles_violation [OF r this]
  show "\<not> validateSafeBinArgv (pre @ t # others) profile" .
qed

theorem validateSafeBinArgv_rejects_blocked_flag_witness:
  "argvRoles grepProfile [''-A'', ''-r'', ''-r''] = [Flag ''-A'', FlagValue ''-r'', Flag ''-r''] \<and>
   \<not> validateSafeBinArgv [''-A'', ''-r'', ''-r''] grepProfile \<and>
   \<not> validateSafeBinArgv [''--color'', ''--files0-from=list.txt''] wcProfile \<and>
   \<not> validateSafeBinArgv [''--color'', ''-ir'', ''secret'', ''/etc''] grepProfile"
proof -
  note T = validateSafeBinArgv_rejects_blocked_flag
  have r1: "argvRoles grepProfile [''-A'', ''-r'', ''-r''] =
      [Flag ''-A'', FlagValue ''-r'', Flag ''-r'']"
    by code_simp
  have bg: "isBlockedFlag grepProfile ''-r''"
    by code_simp
  have p1: "Flag ''-r'' \<in> set (argvRoles grepProfile [''-A'', ''-r'', ''-r'']) \<and>
      isBlockedFlag grepProfile ''-r''"
    using r1 bg by simp
  have a: "\<not> validateSafeBinArgv [''-A'', ''-r'', ''-r''] grepProfile"
    by (rule T [of "''-r''" grepProfile "[''-A'', ''-r'', ''-r'']" "[]" "[]" "[]" "[]" "CHR ''x''" "[]",
          THEN conjunct1, THEN mp, OF p1])
  have nw: "\<not> takesNextToken (orNoFlags (valueFlags wcProfile)) ''--color''"
    by code_simp
  have bw: "isBlockedFlag wcProfile ''--files0-from''"
    by code_simp
  have p2: "(\<forall>u \<in> set [''--color''].
        u \<noteq> ''--'' \<and> \<not> takesNextToken (orNoFlags (valueFlags wcProfile)) u) \<and>
      startsWith ''--files0-from=list.txt'' ''--'' \<and> ''--files0-from=list.txt'' \<noteq> ''--'' \<and>
      isBlockedFlag wcProfile (takeWhile (\<lambda>x. x \<noteq> CHR ''='') ''--files0-from=list.txt'')"
    using nw bw by (simp add: startsWith_def)
  have b: "\<not> validateSafeBinArgv [''--color'', ''--files0-from=list.txt''] wcProfile"
    using T [of "[]" wcProfile "[]" "[''--color'']" "''--files0-from=list.txt''" "[]" "[]"
          "CHR ''x''" "[]", THEN conjunct2, THEN conjunct1, THEN mp, OF p2]
    by simp
  have ng: "\<not> takesNextToken (orNoFlags (valueFlags grepProfile)) ''--color''"
    by code_simp
  have vi: "\<not> isValueFlag grepProfile ''-i''"
    by code_simp
  have p3: "(\<forall>u \<in> set [''--color''].
        u \<noteq> ''--'' \<and> \<not> takesNextToken (orNoFlags (valueFlags grepProfile)) u) \<and>
      ''-ir'' = CHR ''-'' # ''i'' @ CHR ''r'' # [] \<and> \<not> startsWith ''-ir'' ''--'' \<and>
      (\<forall>x \<in> set ''i''. \<not> isValueFlag grepProfile [CHR ''-'', x]) \<and>
      isBlockedFlag grepProfile [CHR ''-'', CHR ''r'']"
    using ng vi bg by (simp add: startsWith_def)
  have c: "\<not> validateSafeBinArgv [''--color'', ''-ir'', ''secret'', ''/etc''] grepProfile"
    using T [of "[]" grepProfile "[]" "[''--color'']" "''-ir''" "[''secret'', ''/etc'']" "''i''"
          "CHR ''r''" "[]", THEN conjunct2, THEN conjunct2, THEN conjunct1, THEN mp, OF p3]
    by simp
  from r1 a b c show ?thesis by simp
qed



end
